theory Spec2Isabelle
  imports Complex_Main "HOL-Library.Word" "HOL-Library.Sublist" "HOL-Library.Multiset"
begin

section \<open>The C++ library used by the collectors\<close>

text \<open>
  The collectors (\<^verbatim>\<open>Collectors.h\<close> and its implementation) read the text of the kernel's pseudo-files
  with \<^verbatim>\<open>std::getline\<close> and with formatted extraction (\<^verbatim>\<open>operator>>\<close>) from a
  \<^verbatim>\<open>std::stringstream\<close>. This section models the part of the library they call, in
  the "C" locale. A \<^verbatim>\<open>std::string\<close> is a \<open>string\<close> (a list of bytes), a
  \<^verbatim>\<open>uint64_t\<close> or \<^verbatim>\<open>unsigned long long\<close> is a \<open>64 word\<close>, and a signed
  integer that the code only stores and compares is an \<open>int\<close> inside its range.
\<close>

type_synonym uint64_t = "64 word"

subsection \<open>Characters\<close>

definition isspace :: "char \<Rightarrow> bool" where
  "isspace c = (c \<in> set [CHR '' '', CHR 0x09, CHR 0x0A, CHR 0x0B, CHR 0x0C, CHR 0x0D])"

definition isdigit :: "char \<Rightarrow> bool" where
  "isdigit c = (c \<in> set ''0123456789'')"

definition digit_val :: "char \<Rightarrow> nat" where
  "digit_val c = of_char c - 48"

definition nat_of_digits :: "string \<Rightarrow> nat" where
  "nat_of_digits ds = foldl (\<lambda>n c. 10 * n + digit_val c) 0 ds"

subsection \<open>Searching in strings\<close>

text \<open>
  \<^verbatim>\<open>s.find(sub)\<close> is the first position where \<open>sub\<close> occurs in \<open>s\<close>, and
  \<^verbatim>\<open>npos\<close> (here \<open>None\<close>) when it does not occur; \<^verbatim>\<open>s.rfind(c)\<close> is the last
  position of the character.
\<close>

fun find_str :: "string \<Rightarrow> string \<Rightarrow> nat option" where
  "find_str [] sub = (if sub = [] then Some 0 else None)"
| "find_str (c # cs) sub =
     (if prefix sub (c # cs) then Some 0 else map_option Suc (find_str cs sub))"

definition find_chr :: "string \<Rightarrow> char \<Rightarrow> nat option" where
  "find_chr s c = find_str s [c]"

fun rfind_chr :: "string \<Rightarrow> char \<Rightarrow> nat option" where
  "rfind_chr [] c = None"
| "rfind_chr (x # xs) c =
     (case rfind_chr xs c of
        Some i \<Rightarrow> Some (Suc i)
      | None \<Rightarrow> if x = c then Some 0 else None)"

subsection \<open>Lines\<close>

text \<open>
  The loop \<^verbatim>\<open>while (std::getline(iss, line))\<close> yields the text between newlines;
  a last line without a newline counts when it is not empty, and the empty text has no
  line. \<open>getlines_from acc s\<close> carries the characters of the current line, reversed.
\<close>

fun getlines_from :: "string \<Rightarrow> string \<Rightarrow> string list" where
  "getlines_from acc [] = (if acc = [] then [] else [rev acc])"
| "getlines_from acc (c # cs) =
     (if c = CHR 0x0A then rev acc # getlines_from [] cs else getlines_from (c # acc) cs)"

definition getlines :: "string \<Rightarrow> string list" where
  "getlines s = getlines_from [] s"

text \<open>
  One \<^verbatim>\<open>std::getline(file, line)\<close> on a freshly opened file: it fails (\<open>None\<close>) on an
  empty file, and gives the first line otherwise. \<open>first_line\<close> is what the string
  argument holds afterwards: \<^verbatim>\<open>getline\<close> erases it before it reads.
\<close>

definition first_line :: "string \<Rightarrow> string" where
  "first_line s = takeWhile (\<lambda>c. c \<noteq> CHR 0x0A) s"

definition getline :: "string \<Rightarrow> string option" where
  "getline s = (if s = [] then None else Some (first_line s))"

subsection \<open>Formatted extraction\<close>

text \<open>
  A stream is the text still to be read and its \<^verbatim>\<open>eofbit\<close> and \<^verbatim>\<open>failbit\<close>.
  Every extraction first builds a sentry: it fails when a bit is already set, skips
  white space, and fails (setting both bits) when the text ends there. An extraction
  whose sentry fails leaves its target variable as it was; the functions below take the
  old content of the variable as their last argument for that.
\<close>

record istream =
  buf :: string
  eofbit :: bool
  failbit :: bool

definition stringstream :: "string \<Rightarrow> istream" where
  "stringstream s = \<lparr>buf = s, eofbit = False, failbit = False\<rparr>"

definition sentry :: "istream \<Rightarrow> bool \<times> istream" where
  "sentry s =
     (if eofbit s \<or> failbit s then (False, s\<lparr>failbit := True\<rparr>)
      else let b = dropWhile isspace (buf s) in
        if b = [] then (False, s\<lparr>buf := [], eofbit := True, failbit := True\<rparr>)
        else (True, s\<lparr>buf := b\<rparr>))"

text \<open>\<^verbatim>\<open>ss >> str\<close>: the characters up to the next white space.\<close>

definition get_string :: "istream \<Rightarrow> string \<Rightarrow> string \<times> istream" where
  "get_string s old =
     (case sentry s of
        (False, s1) \<Rightarrow> (old, s1)
      | (True, s1) \<Rightarrow>
          let r = dropWhile (\<lambda>c. \<not> isspace c) (buf s1) in
          (takeWhile (\<lambda>c. \<not> isspace c) (buf s1), s1\<lparr>buf := r, eofbit := (r = [])\<rparr>))"

text \<open>\<^verbatim>\<open>ss >> ch\<close>: one character after the white space.\<close>

definition get_char :: "istream \<Rightarrow> char \<Rightarrow> char \<times> istream" where
  "get_char s old =
     (case sentry s of
        (False, s1) \<Rightarrow> (old, s1)
      | (True, s1) \<Rightarrow> (case buf s1 of [] \<Rightarrow> (old, s1) | c # cs \<Rightarrow> (c, s1\<lparr>buf := cs\<rparr>)))"

text \<open>
  The integer field of \<^verbatim>\<open>num_get\<close>: an optional sign, then decimal digits. The
  result is the sign, the digits and the text after them.
\<close>

definition scan_number :: "string \<Rightarrow> bool \<times> string \<times> string" where
  "scan_number b =
     (let (neg, b1) =
        (case b of
           [] \<Rightarrow> (False, [])
         | c # cs \<Rightarrow> if c = CHR ''-'' then (True, cs)
                     else if c = CHR ''+'' then (False, cs) else (False, b))
      in (neg, takeWhile isdigit b1, dropWhile isdigit b1))"

text \<open>
  \<^verbatim>\<open>ss >> u\<close> for an unsigned integer of the width of the word: no digit gives 0 and
  \<^verbatim>\<open>failbit\<close>; a value beyond the type gives its maximum and \<^verbatim>\<open>failbit\<close>; a minus
  sign negates modulo the width. \<^verbatim>\<open>eofbit\<close> is set when the digits end the text.
\<close>

definition get_unsigned :: "istream \<Rightarrow> 'a::len word \<Rightarrow> 'a word \<times> istream" where
  "get_unsigned s old =
     (case sentry s of
        (False, s1) \<Rightarrow> (old, s1)
      | (True, s1) \<Rightarrow>
          (case scan_number (buf s1) of
             (neg, ds, r) \<Rightarrow>
               let s2 = s1\<lparr>buf := r, eofbit := (r = [])\<rparr>; n = nat_of_digits ds in
               if ds = [] then (0, s2\<lparr>failbit := True\<rparr>)
               else if 2 ^ LENGTH('a) \<le> n then (- 1, s2\<lparr>failbit := True\<rparr>)
               else (if neg then - of_nat n else of_nat n, s2)))"

text \<open>
  \<^verbatim>\<open>ss >> i\<close> for a signed integer of \<open>w\<close> bits: a value outside the type gives the
  nearest bound and \<^verbatim>\<open>failbit\<close>.
\<close>

definition get_signed :: "nat \<Rightarrow> istream \<Rightarrow> int \<Rightarrow> int \<times> istream" where
  "get_signed w s old =
     (case sentry s of
        (False, s1) \<Rightarrow> (old, s1)
      | (True, s1) \<Rightarrow>
          (case scan_number (buf s1) of
             (neg, ds, r) \<Rightarrow>
               let s2 = s1\<lparr>buf := r, eofbit := (r = [])\<rparr>;
                   v = (if neg then - int (nat_of_digits ds) else int (nat_of_digits ds)) in
               if ds = [] then (0, s2\<lparr>failbit := True\<rparr>)
               else if 2 ^ (w - 1) \<le> v then (2 ^ (w - 1) - 1, s2\<lparr>failbit := True\<rparr>)
               else if v < - (2 ^ (w - 1)) then (- (2 ^ (w - 1)), s2\<lparr>failbit := True\<rparr>)
               else (v, s2)))"

subsection \<open>Double-precision arithmetic\<close>

text \<open>
  A \<^verbatim>\<open>double\<close> is an IEEE 754 binary64 number, and the model keeps a finite one as the
  real number that it denotes. A conversion of an integer, a product and a quotient give
  the exact result rounded to the nearest \<^verbatim>\<open>double\<close>, a tie going to the even
  significand. \<open>round_half_even\<close> rounds to the nearest integer in that way;
  \<open>bit_length n\<close> is the number of binary digits of \<open>n\<close>;
  \<open>binary_exponent r\<close> is the \<open>e\<close> with \<open>2 ^ e \<le> r < 2 ^ (e + 1)\<close> of a positive \<open>r\<close>;
  \<open>binary64 r\<close> is the nearest multiple of \<open>2 ^ (e - 52)\<close>, a number with a significand
  of 53 bits, and below the normal range the nearest multiple of \<open>2 ^ - 1074\<close>. The
  largest \<^verbatim>\<open>double\<close> is not modelled: the numbers that the collectors compute are below
  \<open>100 * 2 ^ 64\<close> in absolute value.
\<close>

definition round_half_even :: "real \<Rightarrow> int" where
  "round_half_even q =
     (let f = \<lfloor>q\<rfloor> in
      if q - of_int f < 1 / 2 then f
      else if 1 / 2 < q - of_int f then f + 1
      else if even f then f else f + 1)"

fun bit_length :: "nat \<Rightarrow> nat" where
  "bit_length n = (if n = 0 then 0 else Suc (bit_length (n div 2)))"

declare bit_length.simps [simp del]

definition binary_exponent :: "real \<Rightarrow> int" where
  "binary_exponent r =
     (if 1 \<le> r then int (bit_length (nat \<lfloor>r\<rfloor>)) - 1
      else let b = bit_length (nat \<lfloor>1 / r\<rfloor>) - 1 in
           if r * 2 ^ b = 1 then - int b else - int b - 1)"

definition binary64 :: "real \<Rightarrow> real" where
  "binary64 r =
     (if r = 0 then 0
      else let k = min (52 - binary_exponent \<bar>r\<bar>) 1074 in
        if 0 \<le> k then of_int (round_half_even (r * 2 ^ nat k)) / 2 ^ nat k
        else of_int (round_half_even (r / 2 ^ nat (- k))) * 2 ^ nat (- k))"

text \<open>
  The operations of the collectors on \<^verbatim>\<open>double\<close>s: the conversion of an
  \<^verbatim>\<open>unsigned long long\<close> and of a \<^verbatim>\<open>long\<close>, the product and the quotient (the
  code divides by a number that it has tested to be positive, or by 1024).
\<close>

definition double_of_uint64 :: "uint64_t \<Rightarrow> real" where
  "double_of_uint64 w = binary64 (real (unat w))"

definition double_of_int64 :: "int \<Rightarrow> real" where
  "double_of_int64 i = binary64 (real_of_int i)"

definition double_mult :: "real \<Rightarrow> real \<Rightarrow> real" where
  "double_mult a b = binary64 (a * b)"

definition double_div :: "real \<Rightarrow> real \<Rightarrow> real" where
  "double_div a b = binary64 (a / b)"

section \<open>The CPU collector\<close>

text \<open>
  The class \<^verbatim>\<open>CPUCollector\<close> with the \<^verbatim>\<open>raw_data_\<close> of its base class. The usage
  percentage is a \<^verbatim>\<open>double\<close>: the real number that it denotes.
\<close>

record CPUCollector =
  cpu_raw_data :: string
  prev_idle :: uint64_t
  prev_total :: uint64_t
  curr_idle :: uint64_t
  curr_total :: uint64_t
  cpu_usage_percent :: real

text \<open>The member initialisers of the class: a collector that has not been refreshed.\<close>

definition CPUCollector_new :: CPUCollector where
  "CPUCollector_new =
     \<lparr>cpu_raw_data = [], prev_idle = 0, prev_total = 0, curr_idle = 0, curr_total = 0,
      cpu_usage_percent = 0\<rparr>"

text \<open>A call of \<^verbatim>\<open>LOG_ERROR\<close>: the message names the path that could not be opened.\<close>

datatype log_entry = LOG_ERROR_cannot_open string

text \<open>
  \<^verbatim>\<open>do_collect\<close>: the argument is the content of \<^verbatim>\<open>/proc/stat\<close>, or \<open>None\<close> when the
  file cannot be opened.
\<close>

definition CPUCollector_do_collect ::
  "string option \<Rightarrow> CPUCollector \<Rightarrow> CPUCollector \<times> log_entry list" where
  "CPUCollector_do_collect file c =
     (case file of
        None \<Rightarrow> (c, [LOG_ERROR_cannot_open ''/proc/stat''])
      | Some text \<Rightarrow> (c\<lparr>cpu_raw_data := first_line text\<rparr>, []))"

text \<open>
  The eight local counters of \<^verbatim>\<open>do_parse\<close>. They are declared without a value, so
  after a failed extraction some of them hold whatever the stack held: \<open>extract_cpu_times\<close>
  takes that content as its first argument.
\<close>

record cpu_times =
  user :: uint64_t
  nice :: uint64_t
  system :: uint64_t
  idle :: uint64_t
  iowait :: uint64_t
  irq :: uint64_t
  softirq :: uint64_t
  steal :: uint64_t

definition extract_cpu_times :: "cpu_times \<Rightarrow> string \<Rightarrow> cpu_times" where
  "extract_cpu_times u raw =
     (case get_string (stringstream raw) [] of (cpu_label, s0) \<Rightarrow>
      case get_unsigned s0 (user u) of (v1, s1) \<Rightarrow>
      case get_unsigned s1 (nice u) of (v2, s2) \<Rightarrow>
      case get_unsigned s2 (system u) of (v3, s3) \<Rightarrow>
      case get_unsigned s3 (idle u) of (v4, s4) \<Rightarrow>
      case get_unsigned s4 (iowait u) of (v5, s5) \<Rightarrow>
      case get_unsigned s5 (irq u) of (v6, s6) \<Rightarrow>
      case get_unsigned s6 (softirq u) of (v7, s7) \<Rightarrow>
      case get_unsigned s7 (steal u) of (v8, s8) \<Rightarrow>
        \<lparr>user = v1, nice = v2, system = v3, idle = v4, iowait = v5, irq = v6,
         softirq = v7, steal = v8\<rparr>)"

definition idle_ticks :: "cpu_times \<Rightarrow> uint64_t" where
  "idle_ticks t = idle t + iowait t"

definition total_ticks :: "cpu_times \<Rightarrow> uint64_t" where
  "total_ticks t =
     user t + nice t + system t + idle t + iowait t + irq t + softirq t + steal t"

definition CPUCollector_do_parse :: "cpu_times \<Rightarrow> CPUCollector \<Rightarrow> CPUCollector" where
  "CPUCollector_do_parse u c =
     (if cpu_raw_data c = [] then c
      else let t = extract_cpu_times u (cpu_raw_data c) in
        c\<lparr>prev_idle := curr_idle c, prev_total := curr_total c,
          curr_idle := idle_ticks t, curr_total := total_ticks t\<rparr>)"

definition CPUCollector_do_calculate :: "CPUCollector \<Rightarrow> CPUCollector" where
  "CPUCollector_do_calculate c =
     (let total_diff = curr_total c - prev_total c;
          idle_diff = curr_idle c - prev_idle c in
      if 0 < total_diff
      then c\<lparr>cpu_usage_percent :=
               double_div (double_mult 100 (double_of_uint64 (total_diff - idle_diff)))
                 (double_of_uint64 total_diff)\<rparr>
      else c)"

text \<open>The template method \<^verbatim>\<open>Collector::update\<close> for this class.\<close>

definition CPUCollector_update ::
  "cpu_times \<Rightarrow> string option \<Rightarrow> CPUCollector \<Rightarrow> CPUCollector \<times> log_entry list" where
  "CPUCollector_update u file c =
     (case CPUCollector_do_collect file c of
        (c1, msgs) \<Rightarrow> (CPUCollector_do_calculate (CPUCollector_do_parse u c1), msgs))"

section \<open>The memory collector\<close>

text \<open>
  The class \<^verbatim>\<open>MemoryCollector\<close>. Its kibibyte fields are \<^verbatim>\<open>uint64_t\<close>; its usage
  percentage is a \<^verbatim>\<open>double\<close>.
\<close>

record MemoryCollector =
  mem_raw_data :: string
  total_kb :: uint64_t
  free_kb :: uint64_t
  available_kb :: uint64_t
  buffers_kb :: uint64_t
  cached_kb :: uint64_t
  used_kb :: uint64_t
  mem_usage_percent :: real

definition MemoryCollector_new :: MemoryCollector where
  "MemoryCollector_new =
     \<lparr>mem_raw_data = [], total_kb = 0, free_kb = 0, available_kb = 0, buffers_kb = 0,
      cached_kb = 0, used_kb = 0, mem_usage_percent = 0\<rparr>"

definition MemoryCollector_do_collect ::
  "string option \<Rightarrow> MemoryCollector \<Rightarrow> MemoryCollector \<times> log_entry list" where
  "MemoryCollector_do_collect file m =
     (case file of
        None \<Rightarrow> (m, [LOG_ERROR_cannot_open ''/proc/meminfo''])
      | Some text \<Rightarrow> (m\<lparr>mem_raw_data := text\<rparr>, []))"

text \<open>
  The body of the loop of \<^verbatim>\<open>do_parse\<close> for one line. The local \<^verbatim>\<open>value\<close> has no
  initial value in the source; \<open>v0\<close> is what it holds before the extraction.
\<close>

definition MemoryCollector_parse_line ::
  "uint64_t \<Rightarrow> string \<Rightarrow> MemoryCollector \<Rightarrow> MemoryCollector" where
  "MemoryCollector_parse_line v0 line m =
     (case get_string (stringstream line) [] of (key, s1) \<Rightarrow>
      case get_unsigned s1 v0 of (val, s2) \<Rightarrow>
      case get_string s2 [] of (unit, s3) \<Rightarrow>
        if key = ''MemTotal:'' then m\<lparr>total_kb := val\<rparr>
        else if key = ''MemFree:'' then m\<lparr>free_kb := val\<rparr>
        else if key = ''MemAvailable:'' then m\<lparr>available_kb := val\<rparr>
        else if key = ''Buffers:'' then m\<lparr>buffers_kb := val\<rparr>
        else if key = ''Cached:'' then m\<lparr>cached_kb := val\<rparr>
        else m)"

text \<open>The loop over the lines; \<open>ind i\<close> is the initial content of \<^verbatim>\<open>value\<close> at line \<open>i\<close>.\<close>

fun MemoryCollector_parse_lines ::
  "(nat \<Rightarrow> uint64_t) \<Rightarrow> nat \<Rightarrow> string list \<Rightarrow> MemoryCollector \<Rightarrow> MemoryCollector" where
  "MemoryCollector_parse_lines ind i [] m = m"
| "MemoryCollector_parse_lines ind i (l # ls) m =
     MemoryCollector_parse_lines ind (Suc i) ls (MemoryCollector_parse_line (ind i) l m)"

definition MemoryCollector_do_parse ::
  "(nat \<Rightarrow> uint64_t) \<Rightarrow> MemoryCollector \<Rightarrow> MemoryCollector" where
  "MemoryCollector_do_parse ind m =
     MemoryCollector_parse_lines ind 0 (getlines (mem_raw_data m)) m"

definition MemoryCollector_do_calculate :: "MemoryCollector \<Rightarrow> MemoryCollector" where
  "MemoryCollector_do_calculate m =
     (let m1 = m\<lparr>used_kb := total_kb m - available_kb m\<rparr> in
      if 0 < total_kb m1
      then m1\<lparr>mem_usage_percent :=
                double_div (double_mult 100 (double_of_uint64 (used_kb m1)))
                  (double_of_uint64 (total_kb m1))\<rparr>
      else m1)"

definition MemoryCollector_update ::
  "(nat \<Rightarrow> uint64_t) \<Rightarrow> string option \<Rightarrow> MemoryCollector
     \<Rightarrow> MemoryCollector \<times> log_entry list" where
  "MemoryCollector_update ind file m =
     (case MemoryCollector_do_collect file m of
        (m1, msgs) \<Rightarrow> (MemoryCollector_do_calculate (MemoryCollector_do_parse ind m1), msgs))"

section \<open>The disk collector\<close>

record DiskStats =
  disk_name :: string
  reads_completed :: uint64_t
  writes_completed :: uint64_t
  sectors_read :: uint64_t
  sectors_written :: uint64_t

record DiskCollector =
  disk_raw_data :: string
  disks :: "DiskStats list"

definition DiskCollector_new :: DiskCollector where
  "DiskCollector_new = \<lparr>disk_raw_data = [], disks = []\<rparr>"

definition DiskCollector_do_collect ::
  "string option \<Rightarrow> DiskCollector \<Rightarrow> DiskCollector \<times> log_entry list" where
  "DiskCollector_do_collect file d =
     (case file of
        None \<Rightarrow> (d, [LOG_ERROR_cannot_open ''/proc/diskstats''])
      | Some text \<Rightarrow> (d\<lparr>disk_raw_data := text\<rparr>, []))"

text \<open>\<^verbatim>\<open>name.find(sub) != std::string::npos\<close>.\<close>

definition found :: "string \<Rightarrow> string \<Rightarrow> bool" where
  "found name sub = (find_str name sub \<noteq> None)"

text \<open>The flag \<^verbatim>\<open>is_partition\<close> after the two tests of the source.\<close>

definition is_partition :: "string \<Rightarrow> bool" where
  "is_partition name =
     (if 2 < length name
      then (let p1 = (isdigit (last name) \<and> \<not> found name ''nvme'') in
            if found name ''nvme'' \<and> found name ''p'' then True else p1)
      else False)"

text \<open>The two nested conditions under which the line is pushed to \<^verbatim>\<open>disks_\<close>.\<close>

definition DiskCollector_keeps :: "string \<Rightarrow> bool" where
  "DiskCollector_keeps name =
     (\<not> found name ''loop'' \<and>
      (found name ''sd'' \<or> found name ''vd'' \<or> found name ''nvme'') \<and>
      (\<not> is_partition name \<or> (found name ''nvme'' \<and> \<not> found name ''p'')))"

text \<open>
  The extractions of one line: two \<^verbatim>\<open>int\<close>s, the name and eight counters. The
  counters have no initial value; \<open>u k\<close> is the initial content of the \<open>k\<close>-th.
\<close>

definition extract_diskstats :: "(nat \<Rightarrow> uint64_t) \<Rightarrow> string \<Rightarrow> DiskStats" where
  "extract_diskstats u line =
     (case get_signed 32 (stringstream line) 0 of (major, s1) \<Rightarrow>
      case get_signed 32 s1 0 of (minor, s2) \<Rightarrow>
      case get_string s2 [] of (name, s3) \<Rightarrow>
      case get_unsigned s3 (u 0) of (reads_completed', s4) \<Rightarrow>
      case get_unsigned s4 (u 1) of (reads_merged, s5) \<Rightarrow>
      case get_unsigned s5 (u 2) of (sectors_read', s6) \<Rightarrow>
      case get_unsigned s6 (u 3) of (time_reading, s7) \<Rightarrow>
      case get_unsigned s7 (u 4) of (writes_completed', s8) \<Rightarrow>
      case get_unsigned s8 (u 5) of (writes_merged, s9) \<Rightarrow>
      case get_unsigned s9 (u 6) of (sectors_written', s10) \<Rightarrow>
      case get_unsigned s10 (u 7) of (time_writing, s11) \<Rightarrow>
        \<lparr>disk_name = name, reads_completed = reads_completed',
         writes_completed = writes_completed', sectors_read = sectors_read',
         sectors_written = sectors_written'\<rparr>)"

fun DiskCollector_parse_lines ::
  "(nat \<Rightarrow> nat \<Rightarrow> uint64_t) \<Rightarrow> nat \<Rightarrow> string list \<Rightarrow> DiskStats list \<Rightarrow> DiskStats list" where
  "DiskCollector_parse_lines ind i [] ds = ds"
| "DiskCollector_parse_lines ind i (l # ls) ds =
     (let stats = extract_diskstats (ind i) l in
      DiskCollector_parse_lines ind (Suc i) ls
        (if DiskCollector_keeps (disk_name stats) then ds @ [stats] else ds))"

definition DiskCollector_do_parse ::
  "(nat \<Rightarrow> nat \<Rightarrow> uint64_t) \<Rightarrow> DiskCollector \<Rightarrow> DiskCollector" where
  "DiskCollector_do_parse ind d =
     d\<lparr>disks := DiskCollector_parse_lines ind 0 (getlines (disk_raw_data d)) []\<rparr>"

definition DiskCollector_update ::
  "(nat \<Rightarrow> nat \<Rightarrow> uint64_t) \<Rightarrow> string option \<Rightarrow> DiskCollector
     \<Rightarrow> DiskCollector \<times> log_entry list" where
  "DiskCollector_update ind file d =
     (case DiskCollector_do_collect file d of
        (d1, msgs) \<Rightarrow> (DiskCollector_do_parse ind d1, msgs))"

section \<open>The network collector\<close>

record InterfaceStats =
  iface_name :: string
  rx_bytes :: uint64_t
  tx_bytes :: uint64_t
  rx_packets :: uint64_t
  tx_packets :: uint64_t

record NetworkCollector =
  net_raw_data :: string
  interfaces :: "InterfaceStats list"

definition NetworkCollector_new :: NetworkCollector where
  "NetworkCollector_new = \<lparr>net_raw_data = [], interfaces = []\<rparr>"

definition NetworkCollector_do_collect ::
  "string option \<Rightarrow> NetworkCollector \<Rightarrow> NetworkCollector \<times> log_entry list" where
  "NetworkCollector_do_collect file n =
     (case file of
        None \<Rightarrow> (n, [LOG_ERROR_cannot_open ''/proc/net/dev''])
      | Some text \<Rightarrow> (n\<lparr>net_raw_data := text\<rparr>, []))"

text \<open>
  The statistics after the colon. The four counters of \<^verbatim>\<open>InterfaceStats\<close> start at 0
  (their member initialisers); \<^verbatim>\<open>dummy\<close> is read six times and never used, so its
  content does not matter.
\<close>

definition extract_interface :: "string \<Rightarrow> string \<Rightarrow> InterfaceStats" where
  "extract_interface name stats_str =
     (case get_unsigned (stringstream stats_str) 0 of (rxb, s1) \<Rightarrow>
      case get_unsigned s1 0 of (rxp, s2) \<Rightarrow>
      case get_unsigned s2 (0 :: uint64_t) of (dummy1, s3) \<Rightarrow>
      case get_unsigned s3 dummy1 of (dummy2, s4) \<Rightarrow>
      case get_unsigned s4 dummy2 of (dummy3, s5) \<Rightarrow>
      case get_unsigned s5 dummy3 of (dummy4, s6) \<Rightarrow>
      case get_unsigned s6 dummy4 of (dummy5, s7) \<Rightarrow>
      case get_unsigned s7 dummy5 of (dummy6, s8) \<Rightarrow>
      case get_unsigned s8 0 of (txb, s9) \<Rightarrow>
      case get_unsigned s9 0 of (txp, s10) \<Rightarrow>
        \<lparr>iface_name = name, rx_bytes = rxb, tx_bytes = txb, rx_packets = rxp,
         tx_packets = txp\<rparr>)"

text \<open>
  One line after the header: nothing without a colon; otherwise the name before the
  first colon, without its leading blanks and tabs, and the statistics after it. The
  line counter of the loop is an \<^verbatim>\<open>int\<close> in the source and a natural number here.
\<close>

definition NetworkCollector_parse_line :: "string \<Rightarrow> InterfaceStats list \<Rightarrow> InterfaceStats list" where
  "NetworkCollector_parse_line line ifs =
     (case find_chr line CHR '':'' of
        None \<Rightarrow> ifs
      | Some colon_pos \<Rightarrow>
          ifs @ [extract_interface
                   (dropWhile (\<lambda>c. c = CHR '' '' \<or> c = CHR 0x09) (take colon_pos line))
                   (drop (colon_pos + 1) line)])"

fun NetworkCollector_parse_lines ::
  "nat \<Rightarrow> string list \<Rightarrow> InterfaceStats list \<Rightarrow> InterfaceStats list" where
  "NetworkCollector_parse_lines line_num [] ifs = ifs"
| "NetworkCollector_parse_lines line_num (l # ls) ifs =
     (if line_num + 1 \<le> 2 then NetworkCollector_parse_lines (line_num + 1) ls ifs
      else NetworkCollector_parse_lines (line_num + 1) ls (NetworkCollector_parse_line l ifs))"

definition NetworkCollector_do_parse :: "NetworkCollector \<Rightarrow> NetworkCollector" where
  "NetworkCollector_do_parse n =
     n\<lparr>interfaces := NetworkCollector_parse_lines 0 (getlines (net_raw_data n)) []\<rparr>"

definition NetworkCollector_update ::
  "string option \<Rightarrow> NetworkCollector \<Rightarrow> NetworkCollector \<times> log_entry list" where
  "NetworkCollector_update file n =
     (case NetworkCollector_do_collect file n of
        (n1, msgs) \<Rightarrow> (NetworkCollector_do_parse n1, msgs))"

section \<open>The process collector\<close>

text \<open>
  The exceptions the library calls of the collectors can throw: \<^verbatim>\<open>std::stoi\<close>
  throws \<^verbatim>\<open>std::invalid_argument\<close> when the text has no number and
  \<^verbatim>\<open>std::out_of_range\<close> when the number is no \<^verbatim>\<open>int\<close>; \<^verbatim>\<open>substr\<close> throws
  \<^verbatim>\<open>std::out_of_range\<close> when the position is beyond the end of the string.
\<close>

datatype error = Invalid_argument | Out_of_range

definition stoi :: "string \<Rightarrow> error + int" where
  "stoi str =
     (case scan_number (dropWhile isspace str) of
        (neg, ds, r) \<Rightarrow>
          let v = (if neg then - int (nat_of_digits ds) else int (nat_of_digits ds)) in
          if ds = [] then Inl Invalid_argument
          else if v < - (2 ^ 31) \<or> 2 ^ 31 \<le> v then Inl Out_of_range
          else Inr v)"

definition substr_from :: "string \<Rightarrow> nat \<Rightarrow> error + string" where
  "substr_from s pos = (if length s < pos then Inl Out_of_range else Inr (drop pos s))"

text \<open>
  \<^verbatim>\<open>line.substr(start + 1, end - start - 1)\<close> for positions inside the line. The
  count is a \<^verbatim>\<open>size_t\<close>: when \<open>end < start\<close> it wraps around to a number larger than
  any string, and \<^verbatim>\<open>substr\<close> returns all that follows \<open>start\<close>.
\<close>

definition substr_between :: "string \<Rightarrow> nat \<Rightarrow> nat \<Rightarrow> string" where
  "substr_between line start end' =
     (if start < end' then take (end' - start - 1) (drop (start + 1) line)
      else drop (start + 1) line)"

record ProcessInfo =
  pid :: int
  proc_name :: string
  state :: char
  vsize :: uint64_t
  rss :: int

record ProcessCollector =
  proc_raw_data :: string
  processes :: "ProcessInfo list"
  total_processes :: int
  running_processes :: int

definition ProcessCollector_new :: ProcessCollector where
  "ProcessCollector_new =
     \<lparr>proc_raw_data = [], processes = [], total_processes = 0, running_processes = 0\<rparr>"

text \<open>
  The two counters are \<^verbatim>\<open>int\<close>s in the source; the model counts in the integers,
  which is the same below \<open>2 ^ 31\<close> processes.
\<close>

text \<open>A directory entry as \<^verbatim>\<open>readdir\<close> returns it, and the directory \<^verbatim>\<open>/proc\<close>.\<close>

datatype file_type = DT_DIR | DT_REG | DT_LNK | DT_UNKNOWN

record dirent =
  d_type :: file_type
  d_name :: string

text \<open>Extractions whose value the code does not use: only the stream goes on.\<close>

fun skip_signed :: "nat \<Rightarrow> nat \<Rightarrow> istream \<Rightarrow> istream" where
  "skip_signed w 0 s = s"
| "skip_signed w (Suc n) s = skip_signed w n (snd (get_signed w s 0))"

fun skip_unsigned32 :: "nat \<Rightarrow> istream \<Rightarrow> istream" where
  "skip_unsigned32 0 s = s"
| "skip_unsigned32 (Suc n) s = skip_unsigned32 n (snd (get_unsigned s (0 :: 32 word)))"

fun skip_unsigned64 :: "nat \<Rightarrow> istream \<Rightarrow> istream" where
  "skip_unsigned64 0 s = s"
| "skip_unsigned64 (Suc n) s = skip_unsigned64 n (snd (get_unsigned s (0 :: 64 word)))"

text \<open>
  The fields after the closing parenthesis: the state, five \<^verbatim>\<open>int\<close>s, one
  \<^verbatim>\<open>unsigned\<close>, six \<^verbatim>\<open>uint64_t\<close>, six \<^verbatim>\<open>int64_t\<close>, \<^verbatim>\<open>starttime\<close>, and then the
  virtual size and the resident set size. \<^verbatim>\<open>state\<close>, \<^verbatim>\<open>info.vsize\<close> and
  \<^verbatim>\<open>info.rss\<close> have no initial value; \<open>g\<close> holds what they contain before.
\<close>

definition extract_stat :: "ProcessInfo \<Rightarrow> string \<Rightarrow> char \<times> uint64_t \<times> int" where
  "extract_stat g rest =
     (case get_char (stringstream rest) (state g) of (st, s1) \<Rightarrow>
      case get_unsigned
             (skip_unsigned64 1 (skip_signed 64 6 (skip_unsigned64 6
                (skip_unsigned32 1 (skip_signed 32 5 s1)))))
             (vsize g) of (vs, s2) \<Rightarrow>
      case get_signed 64 s2 (rss g) of (r, s3) \<Rightarrow> (st, vs, r))"

text \<open>
  The body of the \<^verbatim>\<open>readdir\<close> loop for one entry; \<open>stat_file name\<close> is the content
  of \<^verbatim>\<open>/proc/name/stat\<close>, or \<open>None\<close> when it cannot be opened. An exception leaves the
  loop and \<^verbatim>\<open>do_parse\<close>.
\<close>

definition is_pid :: "string \<Rightarrow> bool" where
  "is_pid name = (name \<noteq> [] \<and> list_all isdigit name)"

definition ProcessCollector_scan_entry ::
  "(string \<Rightarrow> string option) \<Rightarrow> ProcessInfo \<Rightarrow> dirent \<Rightarrow> ProcessCollector
     \<Rightarrow> error + ProcessCollector" where
  "ProcessCollector_scan_entry stat_file g entry p =
     (if d_type entry = DT_DIR \<and> is_pid (d_name entry) then
        (case stoi (d_name entry) of
           Inl e \<Rightarrow> Inl e
         | Inr pid' \<Rightarrow>
            (case stat_file (d_name entry) of
               None \<Rightarrow> Inr p
             | Some text \<Rightarrow>
                (case getline text of
                   None \<Rightarrow> Inr p
                 | Some line \<Rightarrow>
                    (case (find_chr line CHR ''('', rfind_chr line CHR '')'') of
                       (Some start, Some end') \<Rightarrow>
                         (case substr_from line (end' + 2) of
                            Inl e \<Rightarrow> Inl e
                          | Inr rest \<Rightarrow>
                             (case extract_stat g rest of
                                (st, vs, r) \<Rightarrow>
                                  Inr (p\<lparr>running_processes :=
                                          (if st = CHR ''R'' then running_processes p + 1
                                           else running_processes p),
                                        processes := processes p @
                                          [\<lparr>pid = pid',
                                            proc_name = substr_between line start end',
                                            state = st, vsize = vs, rss = r\<rparr>],
                                        total_processes := total_processes p + 1\<rparr>)))
                     | _ \<Rightarrow> Inr p))))
      else Inr p)"

fun ProcessCollector_scan ::
  "(string \<Rightarrow> string option) \<Rightarrow> (nat \<Rightarrow> ProcessInfo) \<Rightarrow> nat \<Rightarrow> dirent list
     \<Rightarrow> ProcessCollector \<Rightarrow> error + ProcessCollector" where
  "ProcessCollector_scan stat_file ind i [] p = Inr p"
| "ProcessCollector_scan stat_file ind i (e # es) p =
     (case ProcessCollector_scan_entry stat_file (ind i) e p of
        Inl x \<Rightarrow> Inl x
      | Inr p' \<Rightarrow> ProcessCollector_scan stat_file ind (Suc i) es p')"

text \<open>
  \<^verbatim>\<open>std::sort\<close> with a comparison: the result is ordered by the comparison and has
  the same elements; the order of elements that compare equal is not specified. The
  model sorts by insertion, which is one such result.
\<close>

fun sort_insert :: "('a \<Rightarrow> 'a \<Rightarrow> bool) \<Rightarrow> 'a \<Rightarrow> 'a list \<Rightarrow> 'a list" where
  "sort_insert cmp x [] = [x]"
| "sort_insert cmp x (y # ys) =
     (if cmp y x then y # sort_insert cmp x ys else x # y # ys)"

fun std_sort :: "('a \<Rightarrow> 'a \<Rightarrow> bool) \<Rightarrow> 'a list \<Rightarrow> 'a list" where
  "std_sort cmp [] = []"
| "std_sort cmp (x # xs) = sort_insert cmp x (std_sort cmp xs)"

definition ProcessCollector_do_collect :: "ProcessCollector \<Rightarrow> ProcessCollector" where
  "ProcessCollector_do_collect p = p\<lparr>proc_raw_data := []\<rparr>"

text \<open>
  \<^verbatim>\<open>do_parse\<close>: \<open>dir\<close> is the list of entries of \<^verbatim>\<open>/proc\<close>, or \<open>None\<close> when
  \<^verbatim>\<open>opendir\<close> fails.
\<close>

definition ProcessCollector_do_parse ::
  "dirent list option \<Rightarrow> (string \<Rightarrow> string option) \<Rightarrow> (nat \<Rightarrow> ProcessInfo)
     \<Rightarrow> ProcessCollector \<Rightarrow> error + ProcessCollector \<times> log_entry list" where
  "ProcessCollector_do_parse dir stat_file ind p =
     (case dir of
        None \<Rightarrow> Inr (p, [LOG_ERROR_cannot_open ''/proc''])
      | Some entries \<Rightarrow>
          (case ProcessCollector_scan stat_file ind 0 entries
                  (p\<lparr>processes := [], total_processes := 0, running_processes := 0\<rparr>) of
             Inl e \<Rightarrow> Inl e
           | Inr p' \<Rightarrow>
               Inr (p'\<lparr>processes := std_sort (\<lambda>a b. rss b < rss a) (processes p')\<rparr>, [])))"

definition ProcessCollector_update ::
  "dirent list option \<Rightarrow> (string \<Rightarrow> string option) \<Rightarrow> (nat \<Rightarrow> ProcessInfo)
     \<Rightarrow> ProcessCollector \<Rightarrow> error + ProcessCollector \<times> log_entry list" where
  "ProcessCollector_update dir stat_file ind p =
     ProcessCollector_do_parse dir stat_file ind (ProcessCollector_do_collect p)"

text \<open>
  \<^verbatim>\<open>print_result\<close>: the two counts, and one line (pid, name, megabytes) for each
  process until the counter reaches five. The megabytes are the \<^verbatim>\<open>double\<close>
  \<^verbatim>\<open>proc.rss * 4.0 / 1024.0\<close>.
\<close>

fun print_top :: "nat \<Rightarrow> ProcessInfo list \<Rightarrow> (int \<times> string \<times> real) list" where
  "print_top cnt [] = []"
| "print_top cnt (proc # procs) =
     (if 5 \<le> cnt then []
      else (pid proc, proc_name proc,
            double_div (double_mult (double_of_int64 (rss proc)) 4) 1024)
             # print_top (cnt + 1) procs)"

definition ProcessCollector_print_result ::
  "ProcessCollector \<Rightarrow> int \<times> int \<times> (int \<times> string \<times> real) list" where
  "ProcessCollector_print_result p =
     (total_processes p, running_processes p, print_top 0 (processes p))"

section \<open>The system collector\<close>

text \<open>
  The uptime and the load averages are \<^verbatim>\<open>double\<close>s that the collector only reads from
  text and prints. The model keeps such a value as the numeral that \<^verbatim>\<open>strtod\<close>
  converted: \<open>Strtod x\<close> is the \<^verbatim>\<open>double\<close> nearest to the decimal numeral \<open>x\<close>, for a
  numeral within the range of \<^verbatim>\<open>double\<close>.
\<close>

datatype double = Strtod string

text \<open>The largest \<^verbatim>\<open>double\<close>, \<open>2 ^ 1024 - 2 ^ 971\<close>, and its negative.\<close>

definition DBL_MAX :: double where
  "DBL_MAX = Strtod ''1.7976931348623157e308''"

definition minus_DBL_MAX :: double where
  "minus_DBL_MAX = Strtod ''-1.7976931348623157e308''"

text \<open>
  The floating-point field of \<^verbatim>\<open>num_get\<close>, as the library accumulates it: a sign,
  the leading zeros as one zero, then digits with at most one decimal point, and after
  a digit at most one exponent mark with an optional sign. The flags are those of the
  library: a digit was found, the point was found, the exponent mark was found.
\<close>

fun scan_float_body :: "bool \<Rightarrow> bool \<Rightarrow> bool \<Rightarrow> string \<Rightarrow> string \<times> string" where
  "scan_float_body fm fd fs [] = ([], [])"
| "scan_float_body fm fd fs (c # cs) =
     (if isdigit c then
        (case scan_float_body True fd fs cs of (x, r) \<Rightarrow> (c # x, r))
      else if c = CHR ''.'' \<and> \<not> fd \<and> \<not> fs then
        (case scan_float_body fm True fs cs of (x, r) \<Rightarrow> (c # x, r))
      else if (c = CHR ''e'' \<or> c = CHR ''E'') \<and> \<not> fs \<and> fm then
        (case cs of
           [] \<Rightarrow> (''e'', [])
         | d # ds \<Rightarrow>
             if d = CHR ''+'' \<or> d = CHR ''-''
             then (case scan_float_body fm fd True ds of (x, r) \<Rightarrow> (CHR ''e'' # d # x, r))
             else (case scan_float_body fm fd True cs of (x, r) \<Rightarrow> (CHR ''e'' # x, r)))
      else ([], c # cs))"

definition scan_float :: "string \<Rightarrow> string \<times> string" where
  "scan_float b =
     (case (case b of
              [] \<Rightarrow> ([], [])
            | c # cs \<Rightarrow> if c = CHR ''+'' \<or> c = CHR ''-'' then ([c], cs) else ([], b)) of
        (sign_chars, b1) \<Rightarrow>
          let zeros = takeWhile (\<lambda>c. c = CHR ''0'') b1 in
          (case scan_float_body (zeros \<noteq> []) False False
                  (dropWhile (\<lambda>c. c = CHR ''0'') b1) of
             (x, r) \<Rightarrow> (sign_chars @ (if zeros \<noteq> [] then ''0'' else []) @ x, r)))"

text \<open>
  \<^verbatim>\<open>strtod\<close> converts the whole accumulated text when its mantissa has a digit and
  its exponent, if there is one, has a digit.
\<close>

definition float_ok :: "string \<Rightarrow> bool" where
  "float_ok x =
     (list_ex isdigit (takeWhile (\<lambda>c. c \<noteq> CHR ''e'') x) \<and>
      (dropWhile (\<lambda>c. c \<noteq> CHR ''e'') x = [] \<or>
       list_ex isdigit (dropWhile (\<lambda>c. c \<noteq> CHR ''e'') x)))"

text \<open>
  The magnitude of an accumulated numeral is \<open>d * 10 ^ e\<close>, with \<open>d\<close> the number that the
  digits of its mantissa spell and \<open>e\<close> its exponent less the number of digits after
  the point. \<^verbatim>\<open>strtod\<close> returns an infinity when the magnitude rounds beyond the
  largest \<^verbatim>\<open>double\<close>, that is from \<open>2 ^ 1024 - 2 ^ 970\<close> on.
\<close>

definition mantissa_digits :: "string \<Rightarrow> string" where
  "mantissa_digits x = filter isdigit (takeWhile (\<lambda>c. c \<noteq> CHR ''e'') x)"

definition fraction_digits :: "string \<Rightarrow> string" where
  "fraction_digits x =
     filter isdigit (dropWhile (\<lambda>c. c \<noteq> CHR ''.'') (takeWhile (\<lambda>c. c \<noteq> CHR ''e'') x))"

definition decimal_exponent :: "string \<Rightarrow> int" where
  "decimal_exponent x =
     (case scan_number (drop 1 (dropWhile (\<lambda>c. c \<noteq> CHR ''e'') x)) of
        (neg, ds, r) \<Rightarrow> if neg then - int (nat_of_digits ds) else int (nat_of_digits ds))"

definition strtod_overflow :: "string \<Rightarrow> bool" where
  "strtod_overflow x =
     (let d = nat_of_digits (mantissa_digits x);
          e = decimal_exponent x - int (length (fraction_digits x)) in
      if 0 \<le> e then 2 ^ 1024 - 2 ^ 970 \<le> d * 10 ^ nat e
      else (2 ^ 1024 - 2 ^ 970) * 10 ^ nat (- e) \<le> d)"

text \<open>
  The conversion of the accumulated text, with the flag of a failure: text that
  \<^verbatim>\<open>strtod\<close> does not convert as a whole gives 0, and a numeral beyond the range of
  \<^verbatim>\<open>double\<close> gives the largest \<^verbatim>\<open>double\<close> with the sign of the numeral.
\<close>

definition convert_to_double :: "string \<Rightarrow> double \<times> bool" where
  "convert_to_double x =
     (if \<not> float_ok x then (Strtod ''0'', True)
      else if strtod_overflow x
        then (if take 1 x = ''-'' then minus_DBL_MAX else DBL_MAX, True)
      else (Strtod x, False))"

definition get_double :: "istream \<Rightarrow> double \<Rightarrow> double \<times> istream" where
  "get_double s old =
     (case sentry s of
        (False, s1) \<Rightarrow> (old, s1)
      | (True, s1) \<Rightarrow>
          (case scan_float (buf s1) of
             (x, r) \<Rightarrow>
               let s2 = s1\<lparr>buf := r, eofbit := (r = [])\<rparr> in
               (case convert_to_double x of
                  (v, False) \<Rightarrow> (v, s2)
                | (v, True) \<Rightarrow> (v, s2\<lparr>failbit := True\<rparr>))))"

record SystemCollector =
  sys_raw_data :: string
  uptime_seconds :: double
  load_1min :: double
  load_5min :: double
  load_15min :: double
  running_tasks :: int
  total_tasks :: int

definition SystemCollector_new :: SystemCollector where
  "SystemCollector_new =
     \<lparr>sys_raw_data = [], uptime_seconds = Strtod ''0'', load_1min = Strtod ''0'',
      load_5min = Strtod ''0'', load_15min = Strtod ''0'', running_tasks = 0,
      total_tasks = 0\<rparr>"

text \<open>
  \<^verbatim>\<open>do_collect\<close> reads \<^verbatim>\<open>/proc/uptime\<close> and \<^verbatim>\<open>/proc/loadavg\<close>; a file that cannot
  be opened is passed over, and nothing is logged.
\<close>

definition SystemCollector_do_collect ::
  "string option \<Rightarrow> string option \<Rightarrow> SystemCollector
     \<Rightarrow> SystemCollector \<times> log_entry list" where
  "SystemCollector_do_collect uptime_file loadavg_file c =
     (let c1 = (case uptime_file of
                  None \<Rightarrow> c
                | Some text \<Rightarrow>
                    c\<lparr>uptime_seconds :=
                        fst (get_double (stringstream text) (uptime_seconds c))\<rparr>)
      in (case loadavg_file of
            None \<Rightarrow> (c1, [])
          | Some text \<Rightarrow> (c1\<lparr>sys_raw_data := text\<rparr>, [])))"

text \<open>
  \<^verbatim>\<open>do_parse\<close>: three load averages and the token \<^verbatim>\<open>running/total\<close>, whose two
  halves go through \<^verbatim>\<open>std::stoi\<close>.
\<close>

definition SystemCollector_do_parse :: "SystemCollector \<Rightarrow> error + SystemCollector" where
  "SystemCollector_do_parse c =
     (case get_double (stringstream (sys_raw_data c)) (load_1min c) of (l1, s1) \<Rightarrow>
      case get_double s1 (load_5min c) of (l5, s2) \<Rightarrow>
      case get_double s2 (load_15min c) of (l15, s3) \<Rightarrow>
      case get_string s3 [] of (running_str, s4) \<Rightarrow>
        let c1 = c\<lparr>load_1min := l1, load_5min := l5, load_15min := l15\<rparr> in
        (case find_chr running_str CHR ''/'' of
           None \<Rightarrow> Inr c1
         | Some slash_pos \<Rightarrow>
             (case stoi (take slash_pos running_str) of
                Inl e \<Rightarrow> Inl e
              | Inr running' \<Rightarrow>
                  (case stoi (drop (slash_pos + 1) running_str) of
                     Inl e \<Rightarrow> Inl e
                   | Inr total' \<Rightarrow>
                       Inr (c1\<lparr>running_tasks := running', total_tasks := total'\<rparr>)))))"

definition SystemCollector_update ::
  "string option \<Rightarrow> string option \<Rightarrow> SystemCollector
     \<Rightarrow> error + SystemCollector \<times> log_entry list" where
  "SystemCollector_update uptime_file loadavg_file c =
     (case SystemCollector_do_collect uptime_file loadavg_file c of
        (c1, msgs) \<Rightarrow>
          (case SystemCollector_do_parse c1 of
             Inl e \<Rightarrow> Inl e
           | Inr c2 \<Rightarrow> Inr (c2, msgs)))"

section \<open>The collector set and one tick of the main loop\<close>

text \<open>
  The kernel's files as one tick finds them (\<open>None\<close>: the file or directory cannot be
  opened), and the contents of the variables that the parsers declare without a value.
\<close>

record procfs =
  proc_stat :: "string option"
  proc_meminfo :: "string option"
  proc_diskstats :: "string option"
  proc_net_dev :: "string option"
  proc_uptime :: "string option"
  proc_loadavg :: "string option"
  proc_dir :: "dirent list option"
  proc_pid_stat :: "string \<Rightarrow> string option"

record uninitialised =
  u_cpu :: cpu_times
  u_mem :: "nat \<Rightarrow> uint64_t"
  u_disk :: "nat \<Rightarrow> nat \<Rightarrow> uint64_t"
  u_proc :: "nat \<Rightarrow> ProcessInfo"

datatype Collector =
    System SystemCollector
  | CPU CPUCollector
  | Memory MemoryCollector
  | Disk DiskCollector
  | Network NetworkCollector
  | Process ProcessCollector

text \<open>The collectors in the order of the \<^verbatim>\<open>REGISTER_COLLECTOR\<close> lines.\<close>

definition create_all :: "Collector list" where
  "create_all =
     [System SystemCollector_new, CPU CPUCollector_new, Memory MemoryCollector_new,
      Disk DiskCollector_new, Network NetworkCollector_new, Process ProcessCollector_new]"

fun get_name :: "Collector \<Rightarrow> string" where
  "get_name (System c) = ''system''"
| "get_name (CPU c) = ''cpu''"
| "get_name (Memory c) = ''memory''"
| "get_name (Disk c) = ''disk''"
| "get_name (Network c) = ''network''"
| "get_name (Process c) = ''process''"

text \<open>\<^verbatim>\<open>Collector::update\<close> through the virtual calls.\<close>

fun update :: "procfs \<Rightarrow> uninitialised \<Rightarrow> Collector \<Rightarrow> error + Collector \<times> log_entry list" where
  "update fs u (System c) =
     (case SystemCollector_update (proc_uptime fs) (proc_loadavg fs) c of
        Inl e \<Rightarrow> Inl e
      | Inr (c', msgs) \<Rightarrow> Inr (System c', msgs))"
| "update fs u (CPU c) =
     (case CPUCollector_update (u_cpu u) (proc_stat fs) c of
        (c', msgs) \<Rightarrow> Inr (CPU c', msgs))"
| "update fs u (Memory c) =
     (case MemoryCollector_update (u_mem u) (proc_meminfo fs) c of
        (c', msgs) \<Rightarrow> Inr (Memory c', msgs))"
| "update fs u (Disk c) =
     (case DiskCollector_update (u_disk u) (proc_diskstats fs) c of
        (c', msgs) \<Rightarrow> Inr (Disk c', msgs))"
| "update fs u (Network c) =
     (case NetworkCollector_update (proc_net_dev fs) c of
        (c', msgs) \<Rightarrow> Inr (Network c', msgs))"
| "update fs u (Process c) =
     (case ProcessCollector_update (proc_dir fs) (proc_pid_stat fs) (u_proc u) c of
        Inl e \<Rightarrow> Inl e
      | Inr (c', msgs) \<Rightarrow> Inr (Process c', msgs))"

text \<open>
  The loop of \<^verbatim>\<open>main\<close> over the collectors in one tick: each is refreshed and then
  printed. No exception is caught anywhere in the program, so the first exception ends
  the loop and the process. A tick gives the collectors it refreshed, the names of those
  it printed, the messages logged, and the exception that ended it, if any.
\<close>

record tick_result =
  refreshed :: "Collector list"
  printed :: "string list"
  logged :: "log_entry list"
  uncaught :: "error option"

fun tick :: "procfs \<Rightarrow> uninitialised \<Rightarrow> Collector list \<Rightarrow> tick_result" where
  "tick fs u [] = \<lparr>refreshed = [], printed = [], logged = [], uncaught = None\<rparr>"
| "tick fs u (c # cs) =
     (case update fs u c of
        Inl e \<Rightarrow> \<lparr>refreshed = [], printed = [], logged = [], uncaught = Some e\<rparr>
      | Inr (c', msgs) \<Rightarrow>
          (let r = tick fs u cs in
           r\<lparr>refreshed := c' # refreshed r, printed := get_name c' # printed r,
             logged := msgs @ logged r\<rparr>))"

section \<open>Notions of the specification\<close>

text \<open>
  The sum of the eight counters of a sample as a natural number, without the
  wrap-around of the 64-bit sum \<open>total_ticks\<close>, and the order "no counter went back"
  between two samples.
\<close>

definition sum_ticks :: "cpu_times \<Rightarrow> nat" where
  "sum_ticks t =
     unat (user t) + unat (nice t) + unat (system t) + unat (idle t) + unat (iowait t)
       + unat (irq t) + unat (softirq t) + unat (steal t)"

definition counters_le :: "cpu_times \<Rightarrow> cpu_times \<Rightarrow> bool" where
  "counters_le a b =
     (user a \<le> user b \<and> nice a \<le> nice b \<and> system a \<le> system b \<and> idle a \<le> idle b \<and>
      iowait a \<le> iowait b \<and> irq a \<le> irq b \<and> softirq a \<le> softirq b \<and> steal a \<le> steal b)"

text \<open>Contents for the variables without an initial value, for the concrete runs.\<close>

definition zero_cpu_times :: cpu_times where
  "zero_cpu_times =
     \<lparr>user = 0, nice = 0, system = 0, idle = 0, iowait = 0, irq = 0, softirq = 0,
      steal = 0\<rparr>"

text \<open>
  The filtering rule of the disk collector in the words of the specification: a name is
  a partition when it ends in a digit, unless it is an NVMe name, which is a partition
  when it holds the partition mark \<^verbatim>\<open>p\<close>; a line is kept when its name has no
  \<^verbatim>\<open>loop\<close>, has one of the prefixes of physical disks and is no partition.
\<close>

definition spec_is_partition :: "string \<Rightarrow> bool" where
  "spec_is_partition name =
     (if found name ''nvme'' then found name ''p'' else name \<noteq> [] \<and> isdigit (last name))"

definition spec_disk_kept :: "string \<Rightarrow> bool" where
  "spec_disk_kept name =
     (\<not> found name ''loop'' \<and>
      (found name ''sd'' \<or> found name ''vd'' \<or> found name ''nvme'') \<and>
      \<not> spec_is_partition name)"

text \<open>The device name of a line of \<^verbatim>\<open>/proc/diskstats\<close>: its third field.\<close>

definition diskstats_name :: "string \<Rightarrow> string" where
  "diskstats_name line = disk_name (extract_diskstats (\<lambda>k. 0) line)"

text \<open>
  The network collector: a line counts when it has a colon. In the words of the
  specification the name of the interface is the text before the first colon trimmed of
  white space: \<open>spec_interface_name\<close> trims the two ends, and
  \<open>spec_leading_trimmed_name\<close> the leading white space only, as the description of the
  component has it.
\<close>

definition has_colon :: "string \<Rightarrow> bool" where
  "has_colon line = (CHR '':'' \<in> set line)"

definition whitespace_trimmed :: "string \<Rightarrow> string" where
  "whitespace_trimmed s = rev (dropWhile isspace (rev (dropWhile isspace s)))"

definition spec_interface_name :: "string \<Rightarrow> string" where
  "spec_interface_name line = whitespace_trimmed (takeWhile (\<lambda>c. c \<noteq> CHR '':'') line)"

definition spec_leading_trimmed_name :: "string \<Rightarrow> string" where
  "spec_leading_trimmed_name line = dropWhile isspace (takeWhile (\<lambda>c. c \<noteq> CHR '':'') line)"

text \<open>
  The rule that the code follows: the name is the text before the first colon without
  its leading blanks and tabs, whatever other white space it holds, and the statistics
  are the text after that colon.
\<close>

definition split_at_colon :: "string \<Rightarrow> InterfaceStats" where
  "split_at_colon line =
     extract_interface
       (dropWhile (\<lambda>c. c = CHR '' '' \<or> c = CHR 0x09) (takeWhile (\<lambda>c. c \<noteq> CHR '':'') line))
       (tl (dropWhile (\<lambda>c. c \<noteq> CHR '':'') line))"

text \<open>
  A content of \<^verbatim>\<open>/proc/net/dev\<close> with a blank between a name and its colon, and with a
  carriage return before a name.
\<close>

definition white_space_dev :: string where
  "white_space_dev = ''h1\<newline>h2\<newline>wlan0 : 1 2\<newline>'' @ CHR 0x0D # ''eth0: 3 4\<newline>''"

text \<open>
  Notions for the process scan: the first and the last position of a character in a
  line; the two counters of the collector agreeing with its list (the number of entries,
  and the number of entries in state \<^verbatim>\<open>R\<close>); and a list in descending order of
  resident set size.
\<close>

definition first_pos :: "string \<Rightarrow> char \<Rightarrow> nat \<Rightarrow> bool" where
  "first_pos s c i = (i < length s \<and> s ! i = c \<and> c \<notin> set (take i s))"

definition last_pos :: "string \<Rightarrow> char \<Rightarrow> nat \<Rightarrow> bool" where
  "last_pos s c i = (i < length s \<and> s ! i = c \<and> c \<notin> set (drop (i + 1) s))"

definition counts_ok :: "ProcessCollector \<Rightarrow> bool" where
  "counts_ok p =
     (total_processes p = int (length (processes p)) \<and>
      running_processes p = int (length (filter (\<lambda>i. state i = CHR ''R'') (processes p))))"

definition rss_descending :: "ProcessInfo list \<Rightarrow> bool" where
  "rss_descending ps = sorted_wrt (\<lambda>a b. rss b \<le> rss a) ps"

text \<open>
  Two directories \<^verbatim>\<open>/proc\<close> for the concrete runs: one with two processes among
  other entries, and one with six processes of resident sizes 5, 50, 1, 100, 7 and 3.
\<close>

definition example_proc :: "dirent list" where
  "example_proc =
     [\<lparr>d_type = DT_DIR, d_name = ''.''\<rparr>, \<lparr>d_type = DT_LNK, d_name = ''self''\<rparr>,
      \<lparr>d_type = DT_DIR, d_name = ''1234''\<rparr>, \<lparr>d_type = DT_REG, d_name = ''cpuinfo''\<rparr>,
      \<lparr>d_type = DT_DIR, d_name = ''77''\<rparr>, \<lparr>d_type = DT_DIR, d_name = ''net''\<rparr>]"

definition example_stat :: "string \<Rightarrow> string option" where
  "example_stat name =
     (if name = ''1234'' then
        Some ''1234 (my proc) R 1 1234 1234 0 -1 4194304 100 0 0 0 5 6 0 0 20 0 1 0 100 1000000 250 18446744073709551615\<newline>''
      else if name = ''77'' then
        Some ''77 (kworker/0:1) S 2 0 0 0 -1 69238880 0 0 0 0 0 3 0 0 20 0 1 0 50 0 0 18446744073709551615\<newline>''
      else None)"

definition zero_ProcessInfo :: ProcessInfo where
  "zero_ProcessInfo = \<lparr>pid = 0, proc_name = [], state = CHR 0x00, vsize = 0, rss = 0\<rparr>"

text \<open>
  Two stat files that the scan does not expect, for a directory \<^verbatim>\<open>/proc\<close> with the
  one process 1: a line that ends at its closing parenthesis, and a line whose last
  closing parenthesis stands before its first opening one.
\<close>

definition one_proc :: "dirent list" where
  "one_proc = [\<lparr>d_type = DT_DIR, d_name = ''1''\<rparr>]"

definition short_stat :: "string \<Rightarrow> string option" where
  "short_stat name = (if name = ''1'' then Some ''1 (a)\<newline>'' else None)"

definition reversed_stat :: "string \<Rightarrow> string option" where
  "reversed_stat name = (if name = ''1'' then Some ''1 ) (x y\<newline>'' else None)"

definition six_proc :: "dirent list" where
  "six_proc =
     [\<lparr>d_type = DT_DIR, d_name = ''1''\<rparr>, \<lparr>d_type = DT_DIR, d_name = ''2''\<rparr>,
      \<lparr>d_type = DT_DIR, d_name = ''3''\<rparr>, \<lparr>d_type = DT_DIR, d_name = ''4''\<rparr>,
      \<lparr>d_type = DT_DIR, d_name = ''5''\<rparr>, \<lparr>d_type = DT_DIR, d_name = ''6''\<rparr>]"

definition six_stat :: "string \<Rightarrow> string option" where
  "six_stat name =
     (if name = ''1'' then Some ''1 (a) S 0 1 1 0 -1 0 0 0 0 0 0 0 0 0 20 0 1 0 10 4096 5\<newline>''
      else if name = ''2'' then Some ''2 (b) S 0 1 1 0 -1 0 0 0 0 0 0 0 0 0 20 0 1 0 10 4096 50\<newline>''
      else if name = ''3'' then Some ''3 (c) S 0 1 1 0 -1 0 0 0 0 0 0 0 0 0 20 0 1 0 10 4096 1\<newline>''
      else if name = ''4'' then Some ''4 (d) R 0 1 1 0 -1 0 0 0 0 0 0 0 0 0 20 0 1 0 10 4096 100\<newline>''
      else if name = ''5'' then Some ''5 (e) S 0 1 1 0 -1 0 0 0 0 0 0 0 0 0 20 0 1 0 10 4096 7\<newline>''
      else if name = ''6'' then Some ''6 (f) S 0 1 1 0 -1 0 0 0 0 0 0 0 0 0 20 0 1 0 10 4096 3\<newline>''
      else None)"

text \<open>
  Three states of the kernel's files for the concrete ticks: all well-formed; the same
  with a load-average line whose task token is \<^verbatim>\<open>x/150\<close>; and nothing that can be
  opened.
\<close>

definition zero_uninitialised :: uninitialised where
  "zero_uninitialised =
     \<lparr>u_cpu = zero_cpu_times, u_mem = (\<lambda>i. 0), u_disk = (\<lambda>i k. 0),
      u_proc = (\<lambda>i. zero_ProcessInfo)\<rparr>"

definition healthy_procfs :: procfs where
  "healthy_procfs =
     \<lparr>proc_stat = Some ''cpu  100 0 0 100 0 0 0 0 0 0\<newline>cpu0 100 0 0 100 0 0 0 0 0 0\<newline>'',
      proc_meminfo = Some ''MemTotal:       100 kB\<newline>MemFree:         20 kB\<newline>MemAvailable:    50 kB\<newline>'',
      proc_diskstats = Some ''   8       0 sda 100 1 2000 3 50 4 1000 5 0 6 7\<newline>   8       1 sda1 90 1 1800 3 40 4 800 5 0 6 7\<newline>'',
      proc_net_dev = Some ''Inter-|   Receive  |  Transmit\<newline> face |bytes packets|bytes packets\<newline>  eth0: 1000 10 0 0 0 0 0 0 2000 20 0 0 0 0 0 0\<newline>'',
      proc_uptime = Some ''12345.67 4321.00\<newline>'',
      proc_loadavg = Some ''0.50 0.40 0.30 2/150 12345\<newline>'',
      proc_dir = Some example_proc,
      proc_pid_stat = example_stat\<rparr>"

definition malformed_loadavg_procfs :: procfs where
  "malformed_loadavg_procfs =
     healthy_procfs\<lparr>proc_loadavg := Some ''0.50 0.40 0.30 x/150 12345\<newline>''\<rparr>"

definition unreachable_procfs :: procfs where
  "unreachable_procfs =
     \<lparr>proc_stat = None, proc_meminfo = None, proc_diskstats = None, proc_net_dev = None,
      proc_uptime = None, proc_loadavg = None, proc_dir = None,
      proc_pid_stat = (\<lambda>name. None)\<rparr>"

text \<open>
  A value that an assignment either keeps (\<open>None\<close>) or replaces: what one parse does to
  a field of a collector.
\<close>

definition keep_or :: "'a option \<Rightarrow> 'a \<Rightarrow> 'a" where
  "keep_or g old = (case g of None \<Rightarrow> old | Some v \<Rightarrow> v)"

text \<open>
  A decimal number of the statistics that fits 64 bits, with the white space before it;
  a next field is one with at least one white space before it.
\<close>

definition number_field :: "string \<Rightarrow> string \<Rightarrow> bool" where
  "number_field w d =
     (list_all isspace w \<and> d \<noteq> [] \<and> list_all isdigit d \<and> nat_of_digits d < 2 ^ 64)"

definition next_field :: "string \<Rightarrow> string \<Rightarrow> bool" where
  "next_field w d = (w \<noteq> [] \<and> number_field w d)"

section \<open>Evaluation of the stream functions\<close>

text \<open>
  The extraction functions on a stream whose three fields are given. These equations
  rewrite only a stream that has been computed, so that a chain of extractions is
  evaluated from its first to its last.
\<close>

lemma sentry_eval:
  "sentry \<lparr>buf = b, eofbit = e, failbit = f\<rparr> =
     (if e \<or> f then (False, \<lparr>buf = b, eofbit = e, failbit = True\<rparr>)
      else if dropWhile isspace b = [] then (False, \<lparr>buf = [], eofbit = True, failbit = True\<rparr>)
      else (True, \<lparr>buf = dropWhile isspace b, eofbit = False, failbit = False\<rparr>))"
  by (simp add: sentry_def Let_def)

lemma get_string_eval:
  "get_string \<lparr>buf = b, eofbit = e, failbit = f\<rparr> old =
     (case sentry \<lparr>buf = b, eofbit = e, failbit = f\<rparr> of
        (False, s1) \<Rightarrow> (old, s1)
      | (True, s1) \<Rightarrow>
          (takeWhile (\<lambda>c. \<not> isspace c) (buf s1),
           s1\<lparr>buf := dropWhile (\<lambda>c. \<not> isspace c) (buf s1),
              eofbit := (dropWhile (\<lambda>c. \<not> isspace c) (buf s1) = [])\<rparr>))"
  by (simp add: get_string_def Let_def split: prod.splits bool.splits)

lemma get_char_eval:
  "get_char \<lparr>buf = b, eofbit = e, failbit = f\<rparr> old =
     (case sentry \<lparr>buf = b, eofbit = e, failbit = f\<rparr> of
        (False, s1) \<Rightarrow> (old, s1)
      | (True, s1) \<Rightarrow> (case buf s1 of [] \<Rightarrow> (old, s1) | c # cs \<Rightarrow> (c, s1\<lparr>buf := cs\<rparr>)))"
  by (simp add: get_char_def split: prod.splits bool.splits)

lemma get_unsigned_eval:
  "get_unsigned \<lparr>buf = b, eofbit = e, failbit = f\<rparr> (old :: 'a::len word) =
     (case sentry \<lparr>buf = b, eofbit = e, failbit = f\<rparr> of
        (False, s1) \<Rightarrow> (old, s1)
      | (True, s1) \<Rightarrow>
          (case scan_number (buf s1) of
             (neg, ds, r) \<Rightarrow>
               if ds = [] then (0, s1\<lparr>buf := r, eofbit := (r = []), failbit := True\<rparr>)
               else if 2 ^ LENGTH('a) \<le> nat_of_digits ds
                 then (- 1, s1\<lparr>buf := r, eofbit := (r = []), failbit := True\<rparr>)
               else (if neg then - of_nat (nat_of_digits ds) else of_nat (nat_of_digits ds),
                     s1\<lparr>buf := r, eofbit := (r = [])\<rparr>)))"
  by (simp add: get_unsigned_def Let_def split: prod.splits bool.splits)

lemma get_signed_eval:
  "get_signed w \<lparr>buf = b, eofbit = e, failbit = f\<rparr> old =
     (case sentry \<lparr>buf = b, eofbit = e, failbit = f\<rparr> of
        (False, s1) \<Rightarrow> (old, s1)
      | (True, s1) \<Rightarrow>
          (case scan_number (buf s1) of
             (neg, ds, r) \<Rightarrow>
               if ds = [] then (0, s1\<lparr>buf := r, eofbit := (r = []), failbit := True\<rparr>)
               else if 2 ^ (w - 1) \<le> (if neg then - int (nat_of_digits ds) else int (nat_of_digits ds))
                 then (2 ^ (w - 1) - 1, s1\<lparr>buf := r, eofbit := (r = []), failbit := True\<rparr>)
               else if (if neg then - int (nat_of_digits ds) else int (nat_of_digits ds)) < - (2 ^ (w - 1))
                 then (- (2 ^ (w - 1)), s1\<lparr>buf := r, eofbit := (r = []), failbit := True\<rparr>)
               else (if neg then - int (nat_of_digits ds) else int (nat_of_digits ds),
                     s1\<lparr>buf := r, eofbit := (r = [])\<rparr>)))"
  by (simp add: get_signed_def Let_def split: prod.splits bool.splits)

lemma get_double_eval:
  "get_double \<lparr>buf = b, eofbit = e, failbit = f\<rparr> old =
     (case sentry \<lparr>buf = b, eofbit = e, failbit = f\<rparr> of
        (False, s1) \<Rightarrow> (old, s1)
      | (True, s1) \<Rightarrow>
          (case scan_float (buf s1) of
             (x, r) \<Rightarrow>
               (case convert_to_double x of
                  (v, False) \<Rightarrow> (v, s1\<lparr>buf := r, eofbit := (r = [])\<rparr>)
                | (v, True) \<Rightarrow> (v, s1\<lparr>buf := r, eofbit := (r = []), failbit := True\<rparr>))))"
  by (simp add: get_double_def Let_def split: prod.splits bool.splits)

lemma scan_number_eval:
  "scan_number [] = (False, [], [])"
  "scan_number (c # cs) =
     (if c = CHR ''-'' then (True, takeWhile isdigit cs, dropWhile isdigit cs)
      else if c = CHR ''+'' then (False, takeWhile isdigit cs, dropWhile isdigit cs)
      else (False, takeWhile isdigit (c # cs), dropWhile isdigit (c # cs)))"
  by (simp_all add: scan_number_def)

lemma skip_signed_numeral:
  "skip_signed w (numeral k) s = skip_signed w (pred_numeral k) (snd (get_signed w s 0))"
  by (simp add: numeral_eq_Suc)

lemma skip_unsigned64_numeral:
  "skip_unsigned64 (numeral k) s =
     skip_unsigned64 (pred_numeral k) (snd (get_unsigned s (0 :: 64 word)))"
  by (simp add: numeral_eq_Suc)

lemma skip_unsigned32_numeral:
  "skip_unsigned32 (numeral k) s =
     skip_unsigned32 (pred_numeral k) (snd (get_unsigned s (0 :: 32 word)))"
  by (simp add: numeral_eq_Suc)

lemmas stream_eval =
  stringstream_def sentry_eval get_string_eval get_char_eval get_unsigned_eval
  get_signed_eval get_double_eval scan_number_eval isspace_def isdigit_def
  nat_of_digits_def digit_val_def skip_signed_numeral skip_unsigned64_numeral
  skip_unsigned32_numeral

lemma isdigit_not_isspace: "isdigit c \<Longrightarrow> \<not> isspace c"
  by (auto simp: isdigit_def isspace_def)

lemma isdigit_not_sign: "isdigit c \<Longrightarrow> c \<noteq> CHR ''-'' \<and> c \<noteq> CHR ''+''"
  by (auto simp: isdigit_def)

section \<open>Double-precision arithmetic: rounding\<close>

text \<open>
  The rounding to an integer is to a nearest one and keeps an integer. The exponent is
  the position of the leading binary digit. A natural number below \<open>2 ^ 53\<close> is a
  \<^verbatim>\<open>double\<close>, and the rounding of a number does not pass such a bound above it. In
  the normal range the rounding moves a number by at most half a unit of the last binary
  digit of its significand. The rounding is monotone and odd, it keeps an integer below
  \<open>2 ^ 53\<close> in absolute value, also when it is scaled by a power of two, and its result
  has a significand of at most 53 bits, so that it is kept by a second rounding.
\<close>

lemma round_half_even_of_int: "round_half_even (of_int n) = n"
  by (simp add: round_half_even_def)

lemma round_half_even_le:
  assumes "q \<le> of_int n"
  shows "round_half_even q \<le> n"
proof -
  have f: "\<lfloor>q\<rfloor> \<le> n" using assms by (simp add: floor_le_iff)
  show ?thesis
  proof (cases "q - of_int \<lfloor>q\<rfloor> < 1 / 2")
    case True
    then show ?thesis using f by (simp add: round_half_even_def)
  next
    case False
    then have "of_int \<lfloor>q\<rfloor> < q" by linarith
    with assms have "(of_int \<lfloor>q\<rfloor> :: real) < of_int n" by linarith
    then have "\<lfloor>q\<rfloor> < n" by simp
    then show ?thesis using f by (simp add: round_half_even_def Let_def)
  qed
qed

lemma round_half_even_ge:
  assumes "of_int n \<le> q"
  shows "n \<le> round_half_even q"
proof -
  have "n \<le> \<lfloor>q\<rfloor>" using assms by (simp add: le_floor_iff)
  then show ?thesis by (simp add: round_half_even_def Let_def)
qed

lemma round_half_even_nearest: "\<bar>of_int (round_half_even q) - q\<bar> \<le> 1 / 2"
  unfolding round_half_even_def Let_def
  by (auto; linarith)

lemma bit_length_bounds:
  "0 < n \<Longrightarrow> 2 ^ (bit_length n - 1) \<le> n \<and> n < 2 ^ bit_length n"
proof (induction n rule: bit_length.induct)
  case (1 n)
  show ?case
  proof (cases "n div 2 = 0")
    case True
    with 1(2) have "n = Suc 0" by (simp add: div_eq_0_iff)
    then show ?thesis by (simp add: bit_length.simps [of "Suc 0"] bit_length.simps [of 0])
  next
    case False
    with 1 have ih: "2 ^ (bit_length (n div 2) - 1) \<le> n div 2" "n div 2 < 2 ^ bit_length (n div 2)"
      by simp_all
    have p: "0 < bit_length (n div 2)" using False by (simp add: bit_length.simps [of "n div 2"])
    have e: "bit_length n = Suc (bit_length (n div 2))"
      using 1(2) by (simp add: bit_length.simps [of n])
    have "2 * 2 ^ (bit_length (n div 2) - 1) \<le> n" using ih(1) by linarith
    moreover have "2 * 2 ^ (bit_length (n div 2) - 1) = (2::nat) ^ bit_length (n div 2)"
      using p by (cases "bit_length (n div 2)") simp_all
    moreover have "n < 2 * 2 ^ bit_length (n div 2)" using ih(2) by linarith
    ultimately show ?thesis unfolding e by simp
  qed
qed

lemma binary_exponent_bounds:
  assumes "0 < r"
  shows "2 powi binary_exponent r \<le> r \<and> r < 2 powi (binary_exponent r + 1)"
proof (cases "1 \<le> r")
  case True
  define n where "n = nat \<lfloor>r\<rfloor>"
  have n: "0 < n" "real n \<le> r" "r < real n + 1"
    using True unfolding n_def by linarith+
  from bit_length_bounds [of n] n(1)
  have b: "2 ^ (bit_length n - 1) \<le> n" "n < 2 ^ bit_length n" by simp_all
  have p: "0 < bit_length n" using n(1) by (simp add: bit_length.simps [of n])
  have e: "binary_exponent r = int (bit_length n - 1)"
    using True p by (simp add: binary_exponent_def n_def)
  have e1: "int (bit_length n - 1) + 1 = int (bit_length n)"
    using p by simp
  have "(2::real) ^ (bit_length n - 1) \<le> real n"
    using b(1) of_nat_le_iff [of "2 ^ (bit_length n - 1)" n, where ?'a = real] by simp
  moreover have "real n + 1 \<le> 2 ^ bit_length n"
  proof -
    have "real (Suc n) \<le> real (2 ^ bit_length n)"
      using b(2) by (simp only: of_nat_le_iff Suc_le_eq)
    then show ?thesis by simp
  qed
  ultimately show ?thesis using n unfolding e e1 power_int_of_nat by linarith
next
  case False
  then have r1: "r < 1" by simp
  define m where "m = nat \<lfloor>1 / r\<rfloor>"
  have inv: "1 < 1 / r" using assms r1 by simp
  have m: "0 < m" "real m \<le> 1 / r" "1 / r < real m + 1"
    using inv unfolding m_def by linarith+
  define b where "b = bit_length m - 1"
  from bit_length_bounds [of m] m(1)
  have fb: "2 ^ b \<le> m" "m < 2 ^ bit_length m" unfolding b_def by simp_all
  have p: "0 < bit_length m" using m(1) by (simp add: bit_length.simps [of m])
  have sb: "bit_length m = Suc b" using p by (simp add: b_def)
  have lo: "(2::real) ^ b \<le> real m"
    using fb(1) of_nat_le_iff [of "2 ^ b" m, where ?'a = real] by simp
  have hi: "real m + 1 \<le> 2 ^ Suc b"
  proof -
    have "real (Suc m) \<le> real (2 ^ Suc b)"
      using fb(2) unfolding sb by (simp only: of_nat_le_iff Suc_le_eq)
    then show ?thesis by simp
  qed
  have A: "r * 2 ^ b \<le> 1"
  proof -
    have "2 ^ b \<le> 1 / r" using lo m(2) by linarith
    then show ?thesis using assms by (simp add: field_simps)
  qed
  have B: "1 < r * 2 ^ Suc b"
  proof -
    have "1 / r < 2 ^ Suc b" using hi m(3) by linarith
    then show ?thesis using assms by (simp add: field_simps)
  qed
  have pw: "(2::real) powi (- int b) = 1 / 2 ^ b" "(2::real) powi (- int b - 1) = 1 / 2 ^ Suc b"
    "(2::real) powi (- int b + 1) = 2 / 2 ^ b" "(2::real) powi (- int b - 1 + 1) = 1 / 2 ^ b"
    by (simp_all add: power_int_minus power_int_diff power_int_add field_simps)
  show ?thesis
  proof (cases "r * 2 ^ b = 1")
    case True
    then have e: "binary_exponent r = - int b"
      using False by (simp add: binary_exponent_def m_def b_def Let_def)
    from True have "r = 1 / 2 ^ b" by (simp add: field_simps)
    then show ?thesis unfolding e pw using assms by (simp add: field_simps)
  next
    case F: False
    then have e: "binary_exponent r = - int b - 1"
      using False by (simp add: binary_exponent_def m_def b_def Let_def)
    from F A have "r * 2 ^ b < 1" by simp
    then have "r < 1 / 2 ^ b" by (simp add: field_simps)
    moreover have "1 / 2 ^ Suc b < r" using B by (simp add: field_simps)
    ultimately show ?thesis unfolding e pw by simp
  qed
qed

lemma binary_exponent_le:
  assumes "0 < r" and "r < 2 ^ n"
  shows "binary_exponent r < int n"
proof (rule ccontr)
  assume "\<not> binary_exponent r < int n"
  then have "int n \<le> binary_exponent r" by simp
  then have "(2::real) powi int n \<le> 2 powi binary_exponent r"
    by (intro power_int_increasing) simp_all
  with binary_exponent_bounds [OF assms(1)] assms(2) show False
    by (simp add: power_int_of_nat)
qed

lemma binary64_small:
  assumes "0 < r" and "r < 2 ^ 53"
  shows "\<exists>k. binary64 r = of_int (round_half_even (r * 2 ^ k)) / 2 ^ k"
proof -
  have "binary_exponent r < int 53" using assms by (rule binary_exponent_le)
  then have "0 \<le> min (52 - binary_exponent \<bar>r\<bar>) 1074" using assms(1) by simp
  then show ?thesis using assms(1) by (auto simp add: binary64_def Let_def)
qed

lemma binary64_of_nat:
  assumes "n < 2 ^ 53"
  shows "binary64 (real n) = real n"
proof (cases "n = 0")
  case True
  then show ?thesis by (simp add: binary64_def)
next
  case False
  have "real n < 2 ^ 53"
    using assms of_nat_less_iff [of n "2 ^ 53", where ?'a = real] by simp
  with False obtain k where k: "binary64 (real n) = of_int (round_half_even (real n * 2 ^ k)) / 2 ^ k"
    using binary64_small [of "real n"] by auto
  have "real n * 2 ^ k = of_int (int n * 2 ^ k)" by simp
  then have "round_half_even (real n * 2 ^ k) = int n * 2 ^ k"
    by (simp only: round_half_even_of_int)
  then show ?thesis using k by simp
qed

lemma binary64_numeral:
  assumes "(numeral w :: nat) < 2 ^ 53"
  shows "binary64 (numeral w) = numeral w"
  using binary64_of_nat [OF assms] by simp

lemma binary64_nonneg:
  assumes "0 \<le> r"
  shows "0 \<le> binary64 r"
proof -
  have "0 \<le> round_half_even q" if "0 \<le> q" for q
    using round_half_even_ge [of 0 q] that by simp
  then show ?thesis using assms
    by (simp add: binary64_def Let_def)
qed

lemma binary64_le_nat:
  assumes "0 \<le> r" and "r \<le> real n" and "n < 2 ^ 53"
  shows "binary64 r \<le> real n"
proof (cases "r = 0")
  case True
  then show ?thesis by (simp add: binary64_def)
next
  case False
  have "real n < 2 ^ 53"
    using assms(3) of_nat_less_iff [of n "2 ^ 53", where ?'a = real] by simp
  with False assms obtain k where k: "binary64 r = of_int (round_half_even (r * 2 ^ k)) / 2 ^ k"
    using binary64_small [of r] by auto
  have "r * 2 ^ k \<le> of_int (int n * 2 ^ k)" using assms(2) by simp
  then have "round_half_even (r * 2 ^ k) \<le> int n * 2 ^ k" by (rule round_half_even_le)
  then have "(of_int (round_half_even (r * 2 ^ k)) :: real) \<le> of_int (int n * 2 ^ k)"
    by (simp only: of_int_le_iff)
  then show ?thesis unfolding k by (simp add: field_simps)
qed

lemma binary64_error:
  assumes "r \<noteq> 0" and "- 1022 \<le> binary_exponent \<bar>r\<bar>"
  shows "\<bar>binary64 r - r\<bar> \<le> 2 powi (binary_exponent \<bar>r\<bar> - 53)"
proof -
  define k where "k = 52 - binary_exponent \<bar>r\<bar>"
  have m: "min (52 - binary_exponent \<bar>r\<bar>) 1074 = k" using assms(2) by (simp add: k_def)
  have e: "binary_exponent \<bar>r\<bar> - 53 = - k - 1" by (simp add: k_def)
  show ?thesis
  proof (cases "0 \<le> k")
    case True
    define K where "K = nat k"
    have b: "binary64 r = of_int (round_half_even (r * 2 ^ K)) / 2 ^ K"
      using assms(1) True by (simp add: binary64_def m K_def)
    have "binary64 r - r = (of_int (round_half_even (r * 2 ^ K)) - r * 2 ^ K) / 2 ^ K"
      unfolding b by (simp add: field_simps)
    then have "\<bar>binary64 r - r\<bar> = \<bar>of_int (round_half_even (r * 2 ^ K)) - r * 2 ^ K\<bar> / 2 ^ K"
      by (simp add: abs_divide)
    also have "\<dots> \<le> (1 / 2) / 2 ^ K"
      using round_half_even_nearest [of "r * 2 ^ K"] by (intro divide_right_mono) simp_all
    also have "\<dots> = 2 powi (- k - 1)"
    proof -
      have "k = int K" using True by (simp add: K_def)
      then have "(2::real) powi (- k - 1) = 2 powi (- int K - 1)" by simp
      also have "\<dots> = 1 / 2 ^ K / 2" by (simp add: power_int_diff power_int_minus field_simps)
      finally show ?thesis by simp
    qed
    finally show ?thesis unfolding e .
  next
    case False
    define M where "M = nat (- k)"
    have b: "binary64 r = of_int (round_half_even (r / 2 ^ M)) * 2 ^ M"
      using assms(1) False by (simp add: binary64_def m M_def)
    have "binary64 r - r = (of_int (round_half_even (r / 2 ^ M)) - r / 2 ^ M) * 2 ^ M"
      unfolding b by (simp add: field_simps)
    then have "\<bar>binary64 r - r\<bar> = \<bar>of_int (round_half_even (r / 2 ^ M)) - r / 2 ^ M\<bar> * 2 ^ M"
      by (simp add: abs_mult)
    also have "\<dots> \<le> (1 / 2) * 2 ^ M"
      using round_half_even_nearest [of "r / 2 ^ M"] by (intro mult_right_mono) simp_all
    also have "\<dots> = 2 powi (- k - 1)"
    proof -
      have "- k = int M" using False by (simp add: M_def)
      then have "(2::real) powi (- k - 1) = 2 powi (int M - 1)" by simp
      also have "\<dots> = 2 ^ M / 2" by (simp add: power_int_diff)
      finally show ?thesis by simp
    qed
    finally show ?thesis unfolding e .
  qed
qed

lemma round_half_even_mono:
  assumes "q \<le> q'"
  shows "round_half_even q \<le> round_half_even q'"
proof -
  have f: "\<lfloor>q\<rfloor> \<le> \<lfloor>q'\<rfloor>" using assms by (rule floor_mono)
  have lo: "\<lfloor>x\<rfloor> \<le> round_half_even x" and hi: "round_half_even x \<le> \<lfloor>x\<rfloor> + 1" for x
    by (simp_all add: round_half_even_def Let_def)
  show ?thesis
  proof (cases "\<lfloor>q\<rfloor> = \<lfloor>q'\<rfloor>")
    case True
    have "q - of_int \<lfloor>q'\<rfloor> \<le> q' - of_int \<lfloor>q'\<rfloor>" using assms by simp
    then show ?thesis
      unfolding round_half_even_def Let_def True by (auto simp: not_less)
  next
    case False
    with f have "\<lfloor>q\<rfloor> + 1 \<le> \<lfloor>q'\<rfloor>" by simp
    with hi [of q] lo [of q'] show ?thesis by linarith
  qed
qed

lemma round_half_even_minus: "round_half_even (- q) = - round_half_even q"
proof (cases "q = of_int \<lfloor>q\<rfloor>")
  case True
  then obtain n where "q = of_int n" by blast
  then have "- q = of_int (- n)" by simp
  then show ?thesis using \<open>q = of_int n\<close> by (simp only: round_half_even_of_int)
next
  case False
  have m: "\<lfloor>- q\<rfloor> = - \<lfloor>q\<rfloor> - 1"
    using False by (simp add: floor_minus ceiling_altdef)
  have lt: "of_int \<lfloor>q\<rfloor> < q"
    using False of_int_floor_le [of q] by linarith
  show ?thesis
    using lt unfolding round_half_even_def Let_def m
    by (auto simp: algebra_simps)
qed

lemma binary64_minus: "binary64 (- r) = - binary64 r"
  by (simp add: binary64_def Let_def round_half_even_minus)

lemma binary64_powi:
  assumes "r \<noteq> 0"
  shows "binary64 r =
     of_int (round_half_even (r * 2 powi min (52 - binary_exponent \<bar>r\<bar>) 1074))
       * 2 powi (- min (52 - binary_exponent \<bar>r\<bar>) 1074)"
proof -
  define k where "k = min (52 - binary_exponent \<bar>r\<bar>) 1074"
  show ?thesis
  proof (cases "0 \<le> k")
    case True
    then have "k = int (nat k)" by simp
    then have p: "(2::real) powi k = 2 ^ nat k" "(2::real) powi (- k) = 1 / 2 ^ nat k"
      by (metis power_int_of_nat, metis power_int_minus power_int_of_nat inverse_eq_divide)
    show ?thesis using assms True unfolding k_def [symmetric] p
      by (simp add: binary64_def k_def [symmetric])
  next
    case False
    then have "- k = int (nat (- k))" by simp
    then have p: "(2::real) powi (- k) = 2 ^ nat (- k)" by (metis power_int_of_nat)
    then have q: "(2::real) powi k = 1 / 2 ^ nat (- k)"
      by (metis power_int_minus inverse_eq_divide minus_minus)
    show ?thesis using assms False unfolding k_def [symmetric] p q
      by (simp add: binary64_def k_def [symmetric])
  qed
qed

lemma binary64_mono_pos:
  assumes "0 < r" and "r \<le> s"
  shows "binary64 r \<le> binary64 s"
proof -
  define er where "er = binary_exponent r"
  define es where "es = binary_exponent s"
  define kr where "kr = min (52 - er) 1074"
  define ks where "ks = min (52 - es) 1074"
  have s0: "0 < s" using assms by simp
  have br: "2 powi er \<le> r" "r < 2 powi (er + 1)"
    using binary_exponent_bounds [OF assms(1)] by (simp_all add: er_def)
  have bs: "2 powi es \<le> s" "s < 2 powi (es + 1)"
    using binary_exponent_bounds [OF s0] by (simp_all add: es_def)
  have "(2::real) powi er < 2 powi (es + 1)" using br(1) assms(2) bs(2) by linarith
  then have "er < es + 1"
  proof (rule contrapos_pp)
    assume "\<not> er < es + 1"
    then have "es + 1 \<le> er" by simp
    then have "(2::real) powi (es + 1) \<le> 2 powi er" by (intro power_int_increasing) simp_all
    then show "\<not> (2::real) powi er < 2 powi (es + 1)" by simp
  qed
  then have e: "er \<le> es" by simp
  have R: "binary64 r = of_int (round_half_even (r * 2 powi kr)) * 2 powi (- kr)"
    using binary64_powi [of r] assms(1) by (simp add: kr_def er_def)
  have S: "binary64 s = of_int (round_half_even (s * 2 powi ks)) * 2 powi (- ks)"
    using binary64_powi [of s] s0 by (simp add: ks_def es_def)
  show ?thesis
  proof (cases "kr = ks")
    case True
    have "r * 2 powi ks \<le> s * 2 powi ks" using assms(2) by (intro mult_right_mono) simp_all
    then have "round_half_even (r * 2 powi ks) \<le> round_half_even (s * 2 powi ks)"
      by (rule round_half_even_mono)
    then have "(of_int (round_half_even (r * 2 powi ks)) :: real) \<le> of_int (round_half_even (s * 2 powi ks))"
      by simp
    then show ?thesis unfolding R S True by (intro mult_right_mono) simp_all
  next
    case False
    have "ks \<le> kr" using e by (simp add: kr_def ks_def)
    with False have lt: "ks < kr" by simp
    then have ks: "ks = 52 - es" by (simp add: kr_def ks_def min_def split: if_splits)
    have elt: "er < es" using lt e ks by (simp add: kr_def min_def split: if_splits)
    have n1: "0 \<le> es + kr" using lt ks by simp
    have "r * 2 powi kr \<le> 2 powi es * 2 powi kr"
    proof -
      have "(2::real) powi (er + 1) \<le> 2 powi es" using elt by (intro power_int_increasing) simp_all
      with br(2) have "r \<le> 2 powi es" by linarith
      then show ?thesis by (intro mult_right_mono) simp_all
    qed
    also have "(2::real) powi es * 2 powi kr = 2 powi (es + kr)" by (simp add: power_int_add)
    also have "\<dots> = of_int (2 ^ nat (es + kr))"
      using n1 by (metis of_int_numeral of_int_power power_int_of_nat int_nat_eq)
    finally have "round_half_even (r * 2 powi kr) \<le> 2 ^ nat (es + kr)"
      by (rule round_half_even_le)
    then have "(of_int (round_half_even (r * 2 powi kr)) :: real) \<le> of_int (2 ^ nat (es + kr))"
      by (simp only: of_int_le_iff)
    also have "(of_int (2 ^ nat (es + kr)) :: real) = 2 powi (es + kr)"
      using n1 by (metis of_int_numeral of_int_power power_int_of_nat int_nat_eq)
    finally have "binary64 r \<le> 2 powi (es + kr) * 2 powi (- kr)"
      unfolding R by (intro mult_right_mono) simp_all
    also have "\<dots> = 2 powi es" by (simp add: power_int_add [symmetric])
    finally have up: "binary64 r \<le> 2 powi es" .
    have "(2::real) powi es * 2 powi ks \<le> s * 2 powi ks"
      using bs(1) by (intro mult_right_mono) simp_all
    moreover have "(2::real) powi es * 2 powi ks = of_int (2 ^ 52)"
      unfolding ks by (simp add: power_int_add [symmetric])
    ultimately have "of_int (2 ^ 52) \<le> s * 2 powi ks" by simp
    then have "2 ^ 52 \<le> round_half_even (s * 2 powi ks)" by (rule round_half_even_ge)
    then have "(of_int (2 ^ 52) :: real) \<le> of_int (round_half_even (s * 2 powi ks))"
      by (simp only: of_int_le_iff)
    then have "of_int (2 ^ 52) * 2 powi (- ks) \<le> binary64 s"
      unfolding S by (intro mult_right_mono) simp_all
    moreover have "(of_int (2 ^ 52) :: real) * 2 powi (- ks) = 2 powi es"
    proof -
      have "(2::real) powi es = 2 powi (52 + (es - 52))" by simp
      also have "\<dots> = 2 powi 52 * 2 powi (es - 52)" by (rule power_int_add) simp
      also have "(2::real) powi 52 = of_int (2 ^ 52)" by simp
      finally show ?thesis unfolding ks by simp
    qed
    ultimately show ?thesis using up by linarith
  qed
qed

lemma binary64_mono:
  assumes "r \<le> s"
  shows "binary64 r \<le> binary64 s"
proof -
  have nn: "0 \<le> binary64 x" if "0 \<le> x" for x using that by (rule binary64_nonneg)
  have np: "binary64 x \<le> 0" if "x \<le> 0" for x
    using nn [of "- x"] that by (simp add: binary64_minus)
  consider "0 < r" | "r \<le> 0" "0 \<le> s" | "s < 0" using assms by linarith
  then show ?thesis
  proof cases
    case 1
    then show ?thesis using assms by (rule binary64_mono_pos)
  next
    case 2
    then show ?thesis using np [of r] nn [of s] by linarith
  next
    case 3
    then have "0 < - s" "- s \<le> - r" using assms by simp_all
    then have "binary64 (- s) \<le> binary64 (- r)" by (rule binary64_mono_pos)
    then show ?thesis by (simp add: binary64_minus)
  qed
qed

lemma binary_exponent_less:
  assumes "0 < r" and "r < 2 powi n"
  shows "binary_exponent r < n"
proof (rule ccontr)
  assume "\<not> binary_exponent r < n"
  then have "n \<le> binary_exponent r" by simp
  then have "(2::real) powi n \<le> 2 powi binary_exponent r"
    by (intro power_int_increasing) simp_all
  with binary_exponent_bounds [OF assms(1)] assms(2) show False by simp
qed

lemma binary64_scaled:
  assumes "\<bar>n\<bar> < 2 ^ 53" and "- 1074 \<le> j"
  shows "binary64 (of_int n * 2 powi j) = of_int n * 2 powi j"
proof (cases "n = 0")
  case True
  then show ?thesis by (simp add: binary64_def)
next
  case False
  define r :: real where "r = of_int n * 2 powi j"
  define k where "k = min (52 - binary_exponent \<bar>r\<bar>) 1074"
  have r0: "r \<noteq> 0" using False by (simp add: r_def)
  have "\<bar>r\<bar> = of_int \<bar>n\<bar> * 2 powi j" by (simp add: r_def abs_mult)
  also have "\<dots> < of_int (2 ^ 53) * 2 powi j"
    using assms(1) by (intro mult_strict_right_mono) (simp_all only: of_int_less_iff, simp)
  also have "(of_int (2 ^ 53) :: real) * 2 powi j = 2 powi (53 + j)"
  proof -
    have "(2::real) powi (53 + j) = 2 powi 53 * 2 powi j" by (rule power_int_add) simp
    then show ?thesis by simp
  qed
  finally have "binary_exponent \<bar>r\<bar> < 53 + j"
    using r0 by (intro binary_exponent_less) simp_all
  then have kj: "0 \<le> j + k" using assms(2) by (simp add: k_def)
  have "r * 2 powi k = of_int n * 2 powi (j + k)"
    unfolding r_def by (simp add: power_int_add)
  also have "(2::real) powi (j + k) = of_int (2 ^ nat (j + k))"
    using kj by (metis of_int_numeral of_int_power power_int_of_nat int_nat_eq)
  finally have "r * 2 powi k = of_int (n * 2 ^ nat (j + k))" by simp
  then have "round_half_even (r * 2 powi k) = n * 2 ^ nat (j + k)"
    by (simp only: round_half_even_of_int)
  then have "binary64 r = of_int (n * 2 ^ nat (j + k)) * 2 powi (- k)"
    using binary64_powi [OF r0] by (simp add: k_def)
  also have "(of_int (n * 2 ^ nat (j + k)) :: real) = of_int n * 2 powi (j + k)"
    using kj by (simp add: power_int_def)
  also have "of_int n * 2 powi (j + k) * 2 powi (- k) = of_int n * ((2::real) powi (j + k) * 2 powi (- k))"
    by simp
  also have "(2::real) powi (j + k) * 2 powi (- k) = 2 powi j"
    by (simp add: power_int_add [symmetric])
  finally show ?thesis by (simp add: r_def)
qed

lemma binary64_of_int:
  assumes "\<bar>n\<bar> < 2 ^ 53"
  shows "binary64 (of_int n) = of_int n"
  using binary64_scaled [OF assms, of 0] by simp

lemma binary64_significand:
  assumes "r \<noteq> 0"
  shows "\<bar>round_half_even (r * 2 powi min (52 - binary_exponent \<bar>r\<bar>) 1074)\<bar> \<le> 2 ^ 53"
proof -
  define k where "k = min (52 - binary_exponent \<bar>r\<bar>) 1074"
  have a: "0 < \<bar>r\<bar>" using assms by simp
  have "\<bar>r\<bar> * 2 powi k \<le> 2 powi (binary_exponent \<bar>r\<bar> + 1) * 2 powi k"
    using binary_exponent_bounds [OF a] by (intro mult_right_mono) simp_all
  also have "\<dots> = 2 powi (binary_exponent \<bar>r\<bar> + 1 + k)" by (simp add: power_int_add)
  also have "\<dots> \<le> 2 powi 53" by (intro power_int_increasing) (simp_all add: k_def)
  also have "(2::real) powi 53 = of_int (2 ^ 53)" by simp
  finally have b: "\<bar>r\<bar> * 2 powi k \<le> of_int (2 ^ 53)" .
  have "r * 2 powi k \<le> \<bar>r\<bar> * 2 powi k" by (intro mult_right_mono) simp_all
  with b have "r * 2 powi k \<le> of_int (2 ^ 53)" by linarith
  then have up: "round_half_even (r * 2 powi k) \<le> 2 ^ 53" by (rule round_half_even_le)
  have "- (\<bar>r\<bar> * 2 powi k) \<le> r * 2 powi k"
  proof -
    have "(- \<bar>r\<bar>) * 2 powi k \<le> r * 2 powi k" by (intro mult_right_mono) simp_all
    then show ?thesis by simp
  qed
  with b have "of_int (- (2 ^ 53)) \<le> r * 2 powi k" by simp
  then have "- (2 ^ 53) \<le> round_half_even (r * 2 powi k)" by (rule round_half_even_ge)
  with up show ?thesis unfolding k_def by simp
qed

lemma binary64_idem: "binary64 (binary64 r) = binary64 r"
proof (cases "r = 0")
  case True
  then show ?thesis by (simp add: binary64_def)
next
  case False
  define k where "k = min (52 - binary_exponent \<bar>r\<bar>) 1074"
  define m where "m = round_half_even (r * 2 powi k)"
  have b: "binary64 r = of_int m * 2 powi (- k)"
    using binary64_powi [OF False] by (simp add: k_def m_def)
  have m: "\<bar>m\<bar> \<le> 2 ^ 53" using binary64_significand [OF False] by (simp add: k_def m_def)
  have k: "- 1074 \<le> - k" by (simp add: k_def)
  show ?thesis
  proof (cases "\<bar>m\<bar> < 2 ^ 53")
    case True
    then show ?thesis unfolding b using k by (rule binary64_scaled)
  next
    case False
    with m have "\<bar>m\<bar> = 2 ^ 53" by simp
    then consider "m = 2 ^ 52 * 2" | "m = (- (2 ^ 52)) * 2" by (auto simp: abs_if split: if_splits)
    then obtain n :: int where n: "m = n * 2" "\<bar>n\<bar> < 2 ^ 53"
      by cases auto
    have "(of_int m :: real) * 2 powi (- k) = of_int n * (2 powi 1 * 2 powi (- k))"
      by (simp add: n(1))
    also have "(2::real) powi 1 * 2 powi (- k) = 2 powi (1 - k)"
    proof -
      have "(2::real) powi (1 + (- k)) = 2 powi 1 * 2 powi (- k)" by (rule power_int_add) simp
      then show ?thesis by simp
    qed
    finally have e: "(of_int m :: real) * 2 powi (- k) = of_int n * 2 powi (1 - k)" .
    show ?thesis unfolding b e using n(2) by (rule binary64_scaled) (use k in simp)
  qed
qed

lemma megabytes_exact:
  assumes "\<bar>n\<bar> < 2 ^ 53"
  shows "double_div (double_mult (double_of_int64 n) 4) 1024 = of_int n * 4 / 1024"
proof -
  have a: "binary64 (of_int n * 4) = of_int n * 4"
    using binary64_scaled [OF assms, of 2] by simp
  have "(2::real) powi (- 8) = 1 / 256" by (simp add: power_int_minus)
  then have "binary64 (of_int n * (1 / 256)) = of_int n * (1 / 256)"
    using binary64_scaled [OF assms, of "- 8"] by simp
  then have b: "binary64 (of_int n / 256) = of_int n / 256" by simp
  show ?thesis
    by (simp add: double_div_def double_mult_def double_of_int64_def binary64_of_int [OF assms]
        a b)
qed

lemma megabytes_mono:
  assumes "m \<le> n"
  shows "double_div (double_mult (double_of_int64 m) 4) 1024
           \<le> double_div (double_mult (double_of_int64 n) 4) 1024"
proof -
  have "binary64 (of_int m) \<le> binary64 (of_int n)"
    using assms by (intro binary64_mono) simp
  then have "binary64 (binary64 (of_int m) * 4) \<le> binary64 (binary64 (of_int n) * 4)"
    by (intro binary64_mono) simp
  then show ?thesis
    unfolding double_div_def double_mult_def double_of_int64_def
    by (intro binary64_mono) simp
qed

lemma double_percent_small:
  assumes "100 * x < 2 ^ 53" and "y < 2 ^ 53"
  shows "double_div (double_mult 100 (binary64 (real x))) (binary64 (real y))
           = binary64 (100 * real x / real y)"
proof -
  have x: "binary64 (real x) = real x"
    using assms by (intro binary64_of_nat) linarith
  have y: "binary64 (real y) = real y"
    using assms by (intro binary64_of_nat)
  have "binary64 (real (100 * x)) = real (100 * x)"
    using assms by (intro binary64_of_nat)
  then have m: "binary64 (100 * real x) = 100 * real x" by simp
  show ?thesis by (simp add: double_div_def double_mult_def x y m)
qed

lemma bit_length_numeral: "bit_length (numeral w) = Suc (bit_length (numeral w div 2))"
  by (subst bit_length.simps) simp

lemma bit_length_0: "bit_length 0 = 0" "bit_length (Suc 0) = 1"
  by (simp_all add: bit_length.simps [of 0] bit_length.simps [of "Suc 0"])

lemmas binary64_eval = binary64_def binary_exponent_def round_half_even_def Let_def
  bit_length_numeral bit_length_0

lemmas double_eval = double_of_uint64_def double_of_int64_def double_mult_def double_div_def
  binary64_numeral

section \<open>The CPU collector: usage percentage\<close>

lemma unat_total_ticks:
  assumes "sum_ticks t < 2 ^ 64"
  shows "unat (total_ticks t) = sum_ticks t"
proof -
  have "unat (total_ticks t) = sum_ticks t mod 2 ^ 64"
    by (simp add: total_ticks_def sum_ticks_def unat_word_ariths mod_simps)
  with assms show ?thesis by simp
qed

lemma unat_idle_ticks:
  assumes "sum_ticks t < 2 ^ 64"
  shows "unat (idle_ticks t) = unat (idle t) + unat (iowait t)"
proof -
  have "unat (idle t) + unat (iowait t) < 2 ^ 64"
    using assms by (simp add: sum_ticks_def)
  then show ?thesis
    by (simp add: idle_ticks_def unat_word_ariths)
qed

lemma counters_le_sum:
  assumes "counters_le a b"
  shows "sum_ticks a \<le> sum_ticks b"
    and "unat (idle a) + unat (iowait a) \<le> unat (idle b) + unat (iowait b)"
    and "(unat (idle b) + unat (iowait b)) - (unat (idle a) + unat (iowait a))
           \<le> sum_ticks b - sum_ticks a"
  using assms unfolding counters_le_def sum_ticks_def word_le_nat_alt by linarith+

lemma double_usage_range:
  assumes "x \<le> y" and "0 < y" and "100 * y < 2 ^ 53"
  shows "0 \<le> double_div (double_mult 100 (binary64 (real x))) (binary64 (real y))
     \<and> double_div (double_mult 100 (binary64 (real x))) (binary64 (real y)) \<le> 100"
proof -
  have e: "double_div (double_mult 100 (binary64 (real x))) (binary64 (real y))
           = binary64 (100 * real x / real y)"
    using assms by (intro double_percent_small) linarith+
  have q: "0 \<le> 100 * real x / real y" "100 * real x / real y \<le> real 100"
    using assms by (simp_all add: divide_le_eq)
  have "0 \<le> binary64 (100 * real x / real y)"
    using q(1) by (rule binary64_nonneg)
  moreover have "binary64 (100 * real x / real y) \<le> real 100"
    using q by (rule binary64_le_nat) simp
  ultimately show ?thesis by (simp add: e)
qed

lemma do_calculate_range:
  fixes pt ct pidle cidle :: uint64_t
  assumes t: "unat pt < unat ct" and i: "unat pidle \<le> unat cidle"
    and d: "unat cidle - unat pidle \<le> unat ct - unat pt"
    and s: "100 * (unat ct - unat pt) < 2 ^ 53"
    and c: "prev_total c = pt" "curr_total c = ct" "prev_idle c = pidle" "curr_idle c = cidle"
  shows "0 \<le> cpu_usage_percent (CPUCollector_do_calculate c)
     \<and> cpu_usage_percent (CPUCollector_do_calculate c) \<le> 100"
proof -
  have le_t: "pt \<le> ct" using t by (simp add: word_le_nat_alt)
  have le_i: "pidle \<le> cidle" using i by (simp add: word_le_nat_alt)
  have td: "unat (ct - pt) = unat ct - unat pt" using le_t by (rule unat_sub)
  have idf: "unat (cidle - pidle) = unat cidle - unat pidle" using le_i by (rule unat_sub)
  have "cidle - pidle \<le> ct - pt" using d td idf by (simp add: word_le_nat_alt)
  then have nd: "unat (ct - pt - (cidle - pidle)) = unat (ct - pt) - unat (cidle - pidle)"
    by (rule unat_sub)
  have pos: "0 < ct - pt" using t td by (simp add: word_less_nat_alt)
  have up: "unat (ct - pt - (cidle - pidle)) \<le> unat (ct - pt)" using nd by simp
  have nz: "0 < unat (ct - pt)" using t td by simp
  have sm: "100 * unat (ct - pt) < 2 ^ 53" using s td by simp
  note r = double_usage_range [OF up nz sm]
  show ?thesis using pos r c
    by (simp add: CPUCollector_do_calculate_def Let_def double_of_uint64_def del: of_nat_unat)
qed

lemma CPUCollector_update_Some:
  assumes "first_line text \<noteq> []"
  shows "fst (CPUCollector_update u (Some text) c) =
     CPUCollector_do_calculate
       (c\<lparr>cpu_raw_data := first_line text, prev_idle := curr_idle c, prev_total := curr_total c,
          curr_idle := idle_ticks (extract_cpu_times u (first_line text)),
          curr_total := total_ticks (extract_cpu_times u (first_line text))\<rparr>)"
  using assms
  by (simp add: CPUCollector_update_def CPUCollector_do_collect_def CPUCollector_do_parse_def Let_def)

lemma do_calculate_keeps_curr:
  "curr_total (CPUCollector_do_calculate c) = curr_total c"
  "curr_idle (CPUCollector_do_calculate c) = curr_idle c"
  by (simp_all add: CPUCollector_do_calculate_def Let_def)

lemma extract_cpu_100_100:
  "extract_cpu_times zero_cpu_times ''cpu 100 0 0 100 0 0 0 0'' =
     \<lparr>user = 100, nice = 0, system = 0, idle = 100, iowait = 0, irq = 0, softirq = 0,
      steal = 0\<rparr>"
  by (simp add: extract_cpu_times_def zero_cpu_times_def stream_eval)

lemma extract_cpu_130_170:
  "extract_cpu_times zero_cpu_times ''cpu 130 0 0 170 0 0 0 0'' =
     \<lparr>user = 130, nice = 0, system = 0, idle = 170, iowait = 0, irq = 0, softirq = 0,
      steal = 0\<rparr>"
  by (simp add: extract_cpu_times_def zero_cpu_times_def stream_eval)

lemma first_update_100_100:
  "fst (CPUCollector_update zero_cpu_times (Some ''cpu 100 0 0 100 0 0 0 0'') CPUCollector_new) =
     \<lparr>cpu_raw_data = ''cpu 100 0 0 100 0 0 0 0'', prev_idle = 0, prev_total = 0,
      curr_idle = 100, curr_total = 200, cpu_usage_percent = 50\<rparr>"
  by (simp add: CPUCollector_update_def CPUCollector_do_collect_def CPUCollector_do_parse_def
      CPUCollector_do_calculate_def first_line_def CPUCollector_new_def extract_cpu_100_100
      idle_ticks_def total_ticks_def double_eval)

text \<open>
  Claim C1, as the code has it. The difference of the totals is an unsigned 64-bit
  number, so "not positive" means zero: when the current total equals the previous one
  (no tick has passed, or nothing has been read yet), the refresh leaves the usage
  percentage at its last value. A collector that has not been refreshed has the usage 0,
  and keeps it while \<^verbatim>\<open>/proc/stat\<close> cannot be opened. The first sample that is read is
  compared with a previous generation of zeros: when its total is not 0, the usage
  becomes that of the counters since boot, the quotient of 100 times the ticks that were
  not idle by the total in \<^verbatim>\<open>double\<close> arithmetic.
\<close>

theorem CPU_usage_kept_when_total_unchanged:
  "(curr_total (CPUCollector_do_parse u (fst (CPUCollector_do_collect file c)))
      = prev_total (CPUCollector_do_parse u (fst (CPUCollector_do_collect file c)))
    \<longrightarrow> cpu_usage_percent (fst (CPUCollector_update u file c)) = cpu_usage_percent c)
   \<and> cpu_usage_percent CPUCollector_new = 0
   \<and> cpu_usage_percent (fst (CPUCollector_update u None CPUCollector_new)) = 0
   \<and> (first_line text \<noteq> [] \<and> total_ticks (extract_cpu_times u (first_line text)) \<noteq> 0
      \<longrightarrow> cpu_usage_percent (fst (CPUCollector_update u (Some text) CPUCollector_new))
          = double_div
              (double_mult 100
                 (double_of_uint64 (total_ticks (extract_cpu_times u (first_line text))
                                     - idle_ticks (extract_cpu_times u (first_line text)))))
              (double_of_uint64 (total_ticks (extract_cpu_times u (first_line text)))))"
proof -
  have a: "(curr_total (CPUCollector_do_parse u (fst (CPUCollector_do_collect file c)))
      = prev_total (CPUCollector_do_parse u (fst (CPUCollector_do_collect file c)))
    \<longrightarrow> cpu_usage_percent (fst (CPUCollector_update u file c)) = cpu_usage_percent c)
   \<and> cpu_usage_percent CPUCollector_new = 0
   \<and> cpu_usage_percent (fst (CPUCollector_update u None CPUCollector_new)) = 0"
    by (simp add: CPUCollector_update_def CPUCollector_do_collect_def CPUCollector_do_parse_def
        CPUCollector_do_calculate_def CPUCollector_new_def Let_def split: option.splits)
  have b: "cpu_usage_percent (fst (CPUCollector_update u (Some text) CPUCollector_new))
          = double_div
              (double_mult 100
                 (double_of_uint64 (total_ticks (extract_cpu_times u (first_line text))
                                     - idle_ticks (extract_cpu_times u (first_line text)))))
              (double_of_uint64 (total_ticks (extract_cpu_times u (first_line text))))"
    if "first_line text \<noteq> []" and "total_ticks (extract_cpu_times u (first_line text)) \<noteq> 0"
    using that
    by (simp add: CPUCollector_update_Some CPUCollector_do_calculate_def CPUCollector_new_def
        Let_def word_greater_zero_iff)
  from a b show ?thesis by blast
qed

theorem CPU_usage_kept_when_total_unchanged_witness:
  "curr_total (CPUCollector_do_parse zero_cpu_times
       (fst (CPUCollector_do_collect (Some ''cpu 100 0 0 100 0 0 0 0'')
          (fst (CPUCollector_update zero_cpu_times (Some ''cpu 100 0 0 100 0 0 0 0'')
             CPUCollector_new)))))
     = prev_total (CPUCollector_do_parse zero_cpu_times
       (fst (CPUCollector_do_collect (Some ''cpu 100 0 0 100 0 0 0 0'')
          (fst (CPUCollector_update zero_cpu_times (Some ''cpu 100 0 0 100 0 0 0 0'')
             CPUCollector_new)))))
   \<and> cpu_usage_percent
       (fst (CPUCollector_update zero_cpu_times (Some ''cpu 100 0 0 100 0 0 0 0'')
          (fst (CPUCollector_update zero_cpu_times (Some ''cpu 100 0 0 100 0 0 0 0'')
             CPUCollector_new)))) = 50
   \<and> total_ticks (extract_cpu_times zero_cpu_times (first_line ''cpu 130 0 0 170 0 0 0 0'')) = 300
   \<and> cpu_usage_percent
       (fst (CPUCollector_update zero_cpu_times (Some ''cpu 130 0 0 170 0 0 0 0'')
          CPUCollector_new)) = 6098624495397547 / 140737488355328"
proof -
  have f: "first_line ''cpu 130 0 0 170 0 0 0 0'' = ''cpu 130 0 0 170 0 0 0 0''"
    by (simp add: first_line_def)
  have t: "total_ticks (extract_cpu_times zero_cpu_times (first_line ''cpu 130 0 0 170 0 0 0 0''))
      = 300"
    by (simp add: f extract_cpu_130_170 total_ticks_def)
  have i: "idle_ticks (extract_cpu_times zero_cpu_times (first_line ''cpu 130 0 0 170 0 0 0 0''))
      = 170"
    by (simp add: f extract_cpu_130_170 idle_ticks_def)
  have g: "cpu_usage_percent
       (fst (CPUCollector_update zero_cpu_times (Some ''cpu 130 0 0 170 0 0 0 0'')
          CPUCollector_new)) = 6098624495397547 / 140737488355328"
  proof -
    have "double_div (double_mult 100 (double_of_uint64 (300 - 170))) (double_of_uint64 300)
        = binary64 (130 / 3)"
      by (simp add: double_eval)
    also have "\<dots> = 6098624495397547 / 140737488355328"
      by (simp add: binary64_eval)
    finally show ?thesis
      using CPU_usage_kept_when_total_unchanged
        [where u = zero_cpu_times and ?text = "''cpu 130 0 0 170 0 0 0 0''",
          THEN conjunct2, THEN conjunct2, THEN conjunct2]
      by (simp add: t i) (simp add: f)
  qed
  have h: "curr_total (CPUCollector_do_parse zero_cpu_times
       (fst (CPUCollector_do_collect (Some ''cpu 100 0 0 100 0 0 0 0'')
          (fst (CPUCollector_update zero_cpu_times (Some ''cpu 100 0 0 100 0 0 0 0'')
             CPUCollector_new)))))
     = prev_total (CPUCollector_do_parse zero_cpu_times
       (fst (CPUCollector_do_collect (Some ''cpu 100 0 0 100 0 0 0 0'')
          (fst (CPUCollector_update zero_cpu_times (Some ''cpu 100 0 0 100 0 0 0 0'')
             CPUCollector_new)))))"
    by (simp add: first_update_100_100 CPUCollector_do_collect_def CPUCollector_do_parse_def
        first_line_def extract_cpu_100_100 idle_ticks_def total_ticks_def)
  from CPU_usage_kept_when_total_unchanged
    [of zero_cpu_times "Some ''cpu 100 0 0 100 0 0 0 0''"
        "fst (CPUCollector_update zero_cpu_times (Some ''cpu 100 0 0 100 0 0 0 0'')
           CPUCollector_new)"] h
  have "cpu_usage_percent
       (fst (CPUCollector_update zero_cpu_times (Some ''cpu 100 0 0 100 0 0 0 0'')
          (fst (CPUCollector_update zero_cpu_times (Some ''cpu 100 0 0 100 0 0 0 0'')
             CPUCollector_new))))
     = cpu_usage_percent
         (fst (CPUCollector_update zero_cpu_times (Some ''cpu 100 0 0 100 0 0 0 0'')
            CPUCollector_new))"
    by blast
  then show ?thesis using h t g by (simp add: first_update_100_100)
qed

text \<open>
  Claim C1 as stated fails on the first sample: a new collector has no previous
  generation (its previous total is 0), the line \<^verbatim>\<open>cpu 100 0 0 100 0 0 0 0\<close> gives the
  difference 200 of the totals, and the usage becomes 50, not 0.
\<close>

theorem CPU_first_sample_counterexample:
  "prev_total CPUCollector_new = 0
   \<and> cpu_usage_percent CPUCollector_new = 0
   \<and> cpu_usage_percent
       (fst (CPUCollector_update zero_cpu_times (Some ''cpu 100 0 0 100 0 0 0 0'')
          CPUCollector_new)) = 50"
  by (simp add: first_update_100_100) (simp add: CPUCollector_new_def)

text \<open>
  Claim C2, with the conditions that the code needs: for two consecutive samples (the
  first lines of two successive contents of \<^verbatim>\<open>/proc/stat\<close>) in which no counter went
  back, the total of the second is larger than that of the first, the eight counters
  of the second sum to less than \<open>2 ^ 64\<close>, and 100 times the difference of the totals
  is below \<open>2 ^ 53\<close> (the product in the expression of the usage is then a
  \<^verbatim>\<open>double\<close> without rounding), the usage percentage after the second refresh lies
  between 0 and 100.
\<close>

theorem CPU_usage_percent_in_range:
  assumes l1: "first_line text1 \<noteq> []" and l2: "first_line text2 \<noteq> []"
    and t1: "t1 = extract_cpu_times u1 (first_line text1)"
    and t2: "t2 = extract_cpu_times u2 (first_line text2)"
    and mono: "counters_le t1 t2"
    and fits: "sum_ticks t2 < 2 ^ 64"
    and incr: "total_ticks t1 < total_ticks t2"
    and small: "100 * (sum_ticks t2 - sum_ticks t1) < 2 ^ 53"
  shows "0 \<le> cpu_usage_percent
            (fst (CPUCollector_update u2 (Some text2) (fst (CPUCollector_update u1 (Some text1) c))))
       \<and> cpu_usage_percent
            (fst (CPUCollector_update u2 (Some text2) (fst (CPUCollector_update u1 (Some text1) c))))
           \<le> 100"
proof -
  have fits1: "sum_ticks t1 < 2 ^ 64"
    using counters_le_sum(1) [OF mono] fits by simp
  have T1: "unat (total_ticks t1) = sum_ticks t1" using fits1 by (rule unat_total_ticks)
  have T2: "unat (total_ticks t2) = sum_ticks t2" using fits by (rule unat_total_ticks)
  have I1: "unat (idle_ticks t1) = unat (idle t1) + unat (iowait t1)"
    using fits1 by (rule unat_idle_ticks)
  have I2: "unat (idle_ticks t2) = unat (idle t2) + unat (iowait t2)"
    using fits by (rule unat_idle_ticks)
  have a: "unat (total_ticks t1) < unat (total_ticks t2)"
    using incr by (simp add: word_less_nat_alt)
  have b: "unat (idle_ticks t1) \<le> unat (idle_ticks t2)"
    using counters_le_sum(2) [OF mono] I1 I2 by simp
  have d: "unat (idle_ticks t2) - unat (idle_ticks t1)
             \<le> unat (total_ticks t2) - unat (total_ticks t1)"
    using counters_le_sum(3) [OF mono] I1 I2 T1 T2 by simp
  have s: "100 * (unat (total_ticks t2) - unat (total_ticks t1)) < 2 ^ 53"
    using small T1 T2 by simp
  let ?c1 = "fst (CPUCollector_update u1 (Some text1) c)"
  have c1: "curr_total ?c1 = total_ticks t1" "curr_idle ?c1 = idle_ticks t1"
    by (simp_all add: CPUCollector_update_Some [OF l1] do_calculate_keeps_curr t1)
  show ?thesis
    unfolding CPUCollector_update_Some [OF l2]
    by (rule do_calculate_range [OF a b d s]) (simp_all add: c1 t2)
qed

theorem CPU_usage_percent_in_range_witness:
  "counters_le (extract_cpu_times zero_cpu_times ''cpu 100 0 0 100 0 0 0 0'')
               (extract_cpu_times zero_cpu_times ''cpu 130 0 0 170 0 0 0 0'')
   \<and> cpu_usage_percent
       (fst (CPUCollector_update zero_cpu_times (Some ''cpu 130 0 0 170 0 0 0 0'')
          (fst (CPUCollector_update zero_cpu_times (Some ''cpu 100 0 0 100 0 0 0 0'')
             CPUCollector_new)))) = 30
   \<and> 0 \<le> cpu_usage_percent
       (fst (CPUCollector_update zero_cpu_times (Some ''cpu 130 0 0 170 0 0 0 0'')
          (fst (CPUCollector_update zero_cpu_times (Some ''cpu 100 0 0 100 0 0 0 0'')
             CPUCollector_new))))
   \<and> cpu_usage_percent
       (fst (CPUCollector_update zero_cpu_times (Some ''cpu 130 0 0 170 0 0 0 0'')
          (fst (CPUCollector_update zero_cpu_times (Some ''cpu 100 0 0 100 0 0 0 0'')
             CPUCollector_new)))) \<le> 100"
proof -
  note e1 = extract_cpu_100_100 and e2 = extract_cpu_130_170
  have m: "counters_le (extract_cpu_times zero_cpu_times ''cpu 100 0 0 100 0 0 0 0'')
               (extract_cpu_times zero_cpu_times ''cpu 130 0 0 170 0 0 0 0'')"
    by (simp add: e1 e2 counters_le_def)
  have f: "sum_ticks (extract_cpu_times zero_cpu_times ''cpu 130 0 0 170 0 0 0 0'') < 2 ^ 64"
    by (simp add: e2 sum_ticks_def)
  have i: "total_ticks (extract_cpu_times zero_cpu_times ''cpu 100 0 0 100 0 0 0 0'')
         < total_ticks (extract_cpu_times zero_cpu_times ''cpu 130 0 0 170 0 0 0 0'')"
    by (simp add: e1 e2 total_ticks_def)
  have s: "100 * (sum_ticks (extract_cpu_times zero_cpu_times ''cpu 130 0 0 170 0 0 0 0'')
                  - sum_ticks (extract_cpu_times zero_cpu_times ''cpu 100 0 0 100 0 0 0 0''))
             < 2 ^ 53"
    by (simp add: e1 e2 sum_ticks_def)
  have v: "cpu_usage_percent
       (fst (CPUCollector_update zero_cpu_times (Some ''cpu 130 0 0 170 0 0 0 0'')
          (fst (CPUCollector_update zero_cpu_times (Some ''cpu 100 0 0 100 0 0 0 0'')
             CPUCollector_new)))) = 30"
    by (simp add: CPUCollector_update_def CPUCollector_do_collect_def CPUCollector_do_parse_def
        CPUCollector_do_calculate_def first_line_def CPUCollector_new_def e1 e2 idle_ticks_def
        total_ticks_def double_eval)
  have r: "0 \<le> cpu_usage_percent
       (fst (CPUCollector_update zero_cpu_times (Some ''cpu 130 0 0 170 0 0 0 0'')
          (fst (CPUCollector_update zero_cpu_times (Some ''cpu 100 0 0 100 0 0 0 0'')
             CPUCollector_new))))
   \<and> cpu_usage_percent
       (fst (CPUCollector_update zero_cpu_times (Some ''cpu 130 0 0 170 0 0 0 0'')
          (fst (CPUCollector_update zero_cpu_times (Some ''cpu 100 0 0 100 0 0 0 0'')
             CPUCollector_new)))) \<le> 100"
    using CPU_usage_percent_in_range
      [where ?text1.0 = "''cpu 100 0 0 100 0 0 0 0''" and ?text2.0 = "''cpu 130 0 0 170 0 0 0 0''"
         and ?u1.0 = zero_cpu_times and ?u2.0 = zero_cpu_times and c = CPUCollector_new,
       OF _ _ refl refl] m f i s
    by (simp add: first_line_def)
  from m v r show ?thesis by blast
qed

text \<open>
  Claim C2 as stated fails when the sum of the counters passes \<open>2 ^ 64\<close>: from
  \<^verbatim>\<open>cpu 1 0 0 0 0 0 0 0\<close> to \<^verbatim>\<open>cpu 11 0 0 18446744073709551610 0 0 0 0\<close> no counter
  goes back and the 64-bit total goes from 1 to 5, but the difference of the idle ticks
  is larger than the difference of the totals and the usage becomes 250.
\<close>

theorem CPU_usage_percent_overflow_counterexample:
  "counters_le (extract_cpu_times zero_cpu_times ''cpu 1 0 0 0 0 0 0 0'')
               (extract_cpu_times zero_cpu_times ''cpu 11 0 0 18446744073709551610 0 0 0 0'')
   \<and> total_ticks (extract_cpu_times zero_cpu_times ''cpu 1 0 0 0 0 0 0 0'')
       < total_ticks (extract_cpu_times zero_cpu_times ''cpu 11 0 0 18446744073709551610 0 0 0 0'')
   \<and> cpu_usage_percent
       (fst (CPUCollector_update zero_cpu_times (Some ''cpu 11 0 0 18446744073709551610 0 0 0 0'')
          (fst (CPUCollector_update zero_cpu_times (Some ''cpu 1 0 0 0 0 0 0 0'')
             CPUCollector_new)))) = 250"
proof -
  have e1: "extract_cpu_times zero_cpu_times ''cpu 1 0 0 0 0 0 0 0'' =
      \<lparr>user = 1, nice = 0, system = 0, idle = 0, iowait = 0, irq = 0, softirq = 0, steal = 0\<rparr>"
    by (simp add: extract_cpu_times_def zero_cpu_times_def stream_eval)
  have e2: "extract_cpu_times zero_cpu_times ''cpu 11 0 0 18446744073709551610 0 0 0 0'' =
      \<lparr>user = 11, nice = 0, system = 0, idle = 18446744073709551610, iowait = 0, irq = 0,
       softirq = 0, steal = 0\<rparr>"
    by (simp add: extract_cpu_times_def zero_cpu_times_def stream_eval)
  show ?thesis
    by (simp add: CPUCollector_update_def CPUCollector_do_collect_def CPUCollector_do_parse_def
        CPUCollector_do_calculate_def first_line_def CPUCollector_new_def e1 e2 idle_ticks_def
        total_ticks_def counters_le_def double_eval)
qed

text \<open>
  Without the bound on the difference of the totals the rounding of the two operations
  passes 100: from \<^verbatim>\<open>cpu 1 0 0 0 0 0 0 0\<close> to \<^verbatim>\<open>cpu 1000000000000007 0 0 0 0 0 0 0\<close>
  the difference of the totals is 1000000000000006 and no tick is idle; the product
  \<open>100 * 1000000000000006\<close> is halfway between two \<^verbatim>\<open>double\<close>s and becomes
  100000000000000608, and the quotient becomes \<open>100 + 2 ^ - 46\<close>.
\<close>

lemma CPU_usage_percent_rounding:
  "counters_le (extract_cpu_times zero_cpu_times ''cpu 1 0 0 0 0 0 0 0'')
               (extract_cpu_times zero_cpu_times ''cpu 1000000000000007 0 0 0 0 0 0 0'')
   \<and> total_ticks (extract_cpu_times zero_cpu_times ''cpu 1 0 0 0 0 0 0 0'')
       < total_ticks (extract_cpu_times zero_cpu_times ''cpu 1000000000000007 0 0 0 0 0 0 0'')
   \<and> sum_ticks (extract_cpu_times zero_cpu_times ''cpu 1000000000000007 0 0 0 0 0 0 0'') < 2 ^ 64
   \<and> cpu_usage_percent
       (fst (CPUCollector_update zero_cpu_times (Some ''cpu 1000000000000007 0 0 0 0 0 0 0'')
          (fst (CPUCollector_update zero_cpu_times (Some ''cpu 1 0 0 0 0 0 0 0'')
             CPUCollector_new)))) = 100 + 1 / 2 ^ 46"
proof -
  have e1: "extract_cpu_times zero_cpu_times ''cpu 1 0 0 0 0 0 0 0'' =
      \<lparr>user = 1, nice = 0, system = 0, idle = 0, iowait = 0, irq = 0, softirq = 0, steal = 0\<rparr>"
    by (simp add: extract_cpu_times_def zero_cpu_times_def stream_eval)
  have e2: "extract_cpu_times zero_cpu_times ''cpu 1000000000000007 0 0 0 0 0 0 0'' =
      \<lparr>user = 1000000000000007, nice = 0, system = 0, idle = 0, iowait = 0, irq = 0,
       softirq = 0, steal = 0\<rparr>"
    by (simp add: extract_cpu_times_def zero_cpu_times_def stream_eval)
  have p: "binary64 100000000000000600 = 100000000000000608"
    by (simp add: binary64_eval)
  have q: "binary64 (50000000000000304 / 500000000000003) = 7036874417766401 / 70368744177664"
    by (simp add: binary64_eval)
  have "double_div (double_mult 100 (double_of_uint64 1000000000000006))
          (double_of_uint64 1000000000000006) = 100 + 1 / 2 ^ 46"
    by (simp add: double_eval p q)
  then show ?thesis
    by (simp add: CPUCollector_update_def CPUCollector_do_collect_def CPUCollector_do_parse_def
        CPUCollector_do_calculate_def first_line_def CPUCollector_new_def e1 e2 idle_ticks_def
        total_ticks_def counters_le_def sum_ticks_def)
qed

section \<open>The memory collector: used memory and usage percentage\<close>

lemma MemoryCollector_parse_line_usage:
  "mem_usage_percent (MemoryCollector_parse_line v0 line m) = mem_usage_percent m"
  by (simp add: MemoryCollector_parse_line_def split: prod.splits)

lemma MemoryCollector_parse_lines_usage:
  "mem_usage_percent (MemoryCollector_parse_lines ind i ls m) = mem_usage_percent m"
  by (induction ls arbitrary: i m) (simp_all add: MemoryCollector_parse_line_usage)

lemma MemoryCollector_do_parse_usage:
  "mem_usage_percent (MemoryCollector_do_parse ind m) = mem_usage_percent m"
  by (simp add: MemoryCollector_do_parse_def MemoryCollector_parse_lines_usage)

lemma MemoryCollector_do_collect_usage:
  "mem_usage_percent (fst (MemoryCollector_do_collect file m)) = mem_usage_percent m"
  by (simp add: MemoryCollector_do_collect_def split: option.splits)

lemma MemoryCollector_do_calculate_fields:
  "total_kb (MemoryCollector_do_calculate m) = total_kb m"
  "available_kb (MemoryCollector_do_calculate m) = available_kb m"
  "used_kb (MemoryCollector_do_calculate m) = total_kb m - available_kb m"
  "0 < total_kb m \<Longrightarrow> mem_usage_percent (MemoryCollector_do_calculate m) =
     double_div (double_mult 100 (double_of_uint64 (total_kb m - available_kb m)))
       (double_of_uint64 (total_kb m))"
  "total_kb m = 0 \<Longrightarrow> mem_usage_percent (MemoryCollector_do_calculate m) = mem_usage_percent m"
  by (simp_all add: MemoryCollector_do_calculate_def Let_def)

text \<open>
  Claim C7, as the code has it. After a refresh the used kibibytes are total minus
  available in 64-bit arithmetic (the exact difference when available is at most total;
  the free kibibytes play no part), the usage percentage is \<open>100 * used / total\<close> in
  \<^verbatim>\<open>double\<close> arithmetic when the total is not 0 (the \<^verbatim>\<open>double\<close> nearest to that
  quotient when \<open>100 * used\<close> and the total are below \<open>2 ^ 53\<close>), and when the total is
  0 the usage percentage is left at its previous value, which is 0 for a new collector.
\<close>

theorem Memory_used_and_usage:
  "used_kb (fst (MemoryCollector_update ind file m))
     = total_kb (fst (MemoryCollector_update ind file m))
       - available_kb (fst (MemoryCollector_update ind file m))
   \<and> (available_kb (fst (MemoryCollector_update ind file m))
        \<le> total_kb (fst (MemoryCollector_update ind file m))
      \<longrightarrow> unat (used_kb (fst (MemoryCollector_update ind file m)))
          = unat (total_kb (fst (MemoryCollector_update ind file m)))
            - unat (available_kb (fst (MemoryCollector_update ind file m))))
   \<and> (0 < total_kb (fst (MemoryCollector_update ind file m))
      \<longrightarrow> mem_usage_percent (fst (MemoryCollector_update ind file m))
          = double_div
              (double_mult 100 (double_of_uint64 (used_kb (fst (MemoryCollector_update ind file m)))))
              (double_of_uint64 (total_kb (fst (MemoryCollector_update ind file m)))))
   \<and> (0 < total_kb (fst (MemoryCollector_update ind file m))
      \<and> 100 * unat (used_kb (fst (MemoryCollector_update ind file m))) < 2 ^ 53
      \<and> unat (total_kb (fst (MemoryCollector_update ind file m))) < 2 ^ 53
      \<longrightarrow> mem_usage_percent (fst (MemoryCollector_update ind file m))
          = binary64 (100 * real (unat (used_kb (fst (MemoryCollector_update ind file m))))
              / real (unat (total_kb (fst (MemoryCollector_update ind file m))))))
   \<and> (total_kb (fst (MemoryCollector_update ind file m)) = 0
      \<longrightarrow> mem_usage_percent (fst (MemoryCollector_update ind file m)) = mem_usage_percent m)
   \<and> mem_usage_percent MemoryCollector_new = 0"
proof -
  obtain m1 msgs where c: "MemoryCollector_do_collect file m = (m1, msgs)"
    by (cases "MemoryCollector_do_collect file m")
  have u: "fst (MemoryCollector_update ind file m)
             = MemoryCollector_do_calculate (MemoryCollector_do_parse ind m1)"
    by (simp add: MemoryCollector_update_def c)
  have k: "mem_usage_percent (MemoryCollector_do_parse ind m1) = mem_usage_percent m"
    using MemoryCollector_do_collect_usage [of "file" m]
    by (simp add: c MemoryCollector_do_parse_usage)
  have s: "double_div
              (double_mult 100 (double_of_uint64 (total_kb m2 - available_kb m2)))
              (double_of_uint64 (total_kb m2))
        = binary64 (100 * real (unat (total_kb m2 - available_kb m2)) / real (unat (total_kb m2)))"
    if "100 * unat (total_kb m2 - available_kb m2) < 2 ^ 53" and "unat (total_kb m2) < 2 ^ 53"
    for m2 :: MemoryCollector
    unfolding double_of_uint64_def using that by (rule double_percent_small)
  show ?thesis
    unfolding u
    by (simp add: MemoryCollector_do_calculate_fields k unat_sub MemoryCollector_new_def s
        del: of_nat_unat)
qed

lemma Memory_first_tick:
  "fst (MemoryCollector_update (\<lambda>i. 0)
          (Some ''MemTotal:       100 kB\<newline>MemFree:         20 kB\<newline>MemAvailable:    50 kB\<newline>'')
          MemoryCollector_new) =
     \<lparr>mem_raw_data = ''MemTotal:       100 kB\<newline>MemFree:         20 kB\<newline>MemAvailable:    50 kB\<newline>'',
      total_kb = 100, free_kb = 20, available_kb = 50, buffers_kb = 0, cached_kb = 0,
      used_kb = 50, mem_usage_percent = 50\<rparr>"
  by (simp add: MemoryCollector_update_def MemoryCollector_do_collect_def
      MemoryCollector_do_parse_def MemoryCollector_do_calculate_def getlines_def
      MemoryCollector_parse_line_def MemoryCollector_new_def stream_eval double_eval)

theorem Memory_used_and_usage_witness:
  "total_kb (fst (MemoryCollector_update (\<lambda>i. 0)
          (Some ''MemTotal:       100 kB\<newline>MemFree:         20 kB\<newline>MemAvailable:    50 kB\<newline>'')
          MemoryCollector_new)) = 100
   \<and> free_kb (fst (MemoryCollector_update (\<lambda>i. 0)
          (Some ''MemTotal:       100 kB\<newline>MemFree:         20 kB\<newline>MemAvailable:    50 kB\<newline>'')
          MemoryCollector_new)) = 20
   \<and> available_kb (fst (MemoryCollector_update (\<lambda>i. 0)
          (Some ''MemTotal:       100 kB\<newline>MemFree:         20 kB\<newline>MemAvailable:    50 kB\<newline>'')
          MemoryCollector_new)) = 50
   \<and> unat (used_kb (fst (MemoryCollector_update (\<lambda>i. 0)
          (Some ''MemTotal:       100 kB\<newline>MemFree:         20 kB\<newline>MemAvailable:    50 kB\<newline>'')
          MemoryCollector_new))) = 50
   \<and> mem_usage_percent (fst (MemoryCollector_update (\<lambda>i. 0)
          (Some ''MemTotal:       100 kB\<newline>MemFree:         20 kB\<newline>MemAvailable:    50 kB\<newline>'')
          MemoryCollector_new)) = 50
   \<and> binary64 (100 * 50 / 100) = 50
   \<and> total_kb (fst (MemoryCollector_update (\<lambda>i. 0) None MemoryCollector_new)) = 0
   \<and> mem_usage_percent (fst (MemoryCollector_update (\<lambda>i. 0) None MemoryCollector_new)) = 0"
  using Memory_used_and_usage [of "\<lambda>i. 0"
     "Some ''MemTotal:       100 kB\<newline>MemFree:         20 kB\<newline>MemAvailable:    50 kB\<newline>''"
     MemoryCollector_new]
    Memory_used_and_usage [of "\<lambda>i. 0" None MemoryCollector_new]
  by (simp add: Memory_first_tick double_eval)
    (simp add: MemoryCollector_update_def MemoryCollector_do_collect_def
      MemoryCollector_do_parse_def MemoryCollector_do_calculate_def getlines_def
      MemoryCollector_new_def)

text \<open>
  Claim C7 as stated fails when the total is 0 after a tick in which it was not: the
  second refresh reads a total of 0 and leaves the usage percentage at the 50 of the
  first.
\<close>

theorem Memory_usage_total_zero_counterexample:
  "total_kb (fst (MemoryCollector_update (\<lambda>i. 0)
      (Some ''MemTotal:       0 kB\<newline>MemAvailable:   0 kB\<newline>'')
      (fst (MemoryCollector_update (\<lambda>i. 0)
          (Some ''MemTotal:       100 kB\<newline>MemFree:         20 kB\<newline>MemAvailable:    50 kB\<newline>'')
          MemoryCollector_new)))) = 0
   \<and> mem_usage_percent (fst (MemoryCollector_update (\<lambda>i. 0)
      (Some ''MemTotal:       0 kB\<newline>MemAvailable:   0 kB\<newline>'')
      (fst (MemoryCollector_update (\<lambda>i. 0)
          (Some ''MemTotal:       100 kB\<newline>MemFree:         20 kB\<newline>MemAvailable:    50 kB\<newline>'')
          MemoryCollector_new)))) = 50"
  unfolding Memory_first_tick
  by (simp add: MemoryCollector_update_def MemoryCollector_do_collect_def
      MemoryCollector_do_parse_def MemoryCollector_do_calculate_def getlines_def
      MemoryCollector_parse_line_def stream_eval double_eval)

section \<open>The disk collector: which devices are kept\<close>

lemma find_str_Some_iff: "find_str s sub \<noteq> None \<longleftrightarrow> sublist sub s"
proof (induction s)
  case Nil
  then show ?case by simp
next
  case (Cons c cs)
  then show ?case by (auto simp: sublist_Cons_right)
qed

lemma found_sublist: "found name sub \<longleftrightarrow> sublist sub name"
  unfolding found_def by (rule find_str_Some_iff)

lemma found_length: "found name sub \<Longrightarrow> length sub \<le> length name"
  by (auto simp: found_sublist sublist_def)

lemma found_same_length: "found name sub \<Longrightarrow> length name \<le> length sub \<Longrightarrow> name = sub"
  by (auto simp: found_sublist sublist_def)

lemma short_names:
  assumes "length name \<le> 2"
    and "found name ''sd'' \<or> found name ''vd'' \<or> found name ''nvme''"
  shows "name = ''sd'' \<or> name = ''vd''"
  using assms found_same_length [of name "''sd''"] found_same_length [of name "''vd''"]
    found_length [of name "''nvme''"]
  by auto

lemma keeps_iff_spec: "DiskCollector_keeps name \<longleftrightarrow> spec_disk_kept name"
proof (cases "2 < length name")
  case True
  then have "name \<noteq> []" by auto
  with True show ?thesis
    by (auto simp: DiskCollector_keeps_def spec_disk_kept_def is_partition_def
        spec_is_partition_def Let_def)
next
  case False
  show ?thesis
  proof (cases "found name ''sd'' \<or> found name ''vd'' \<or> found name ''nvme''")
    case True
    with False have "name = ''sd'' \<or> name = ''vd''"
      by (intro short_names) auto
    then show ?thesis
      by (auto simp: DiskCollector_keeps_def spec_disk_kept_def is_partition_def
        spec_is_partition_def found_def isdigit_def)
  next
    case False
    then show ?thesis
      by (simp add: DiskCollector_keeps_def spec_disk_kept_def)
  qed
qed

lemma extract_diskstats_name:
  "disk_name (extract_diskstats u line) = diskstats_name line"
  by (simp add: extract_diskstats_def diskstats_name_def split: prod.splits)

lemma DiskCollector_parse_lines_names:
  "map disk_name (DiskCollector_parse_lines ind i ls ds) =
     map disk_name ds @ filter DiskCollector_keeps (map diskstats_name ls)"
  by (induction ls arbitrary: i ds) (simp_all add: Let_def extract_diskstats_name)

lemma five_names:
  "\<not> DiskCollector_keeps ''loop3'' \<and> DiskCollector_keeps ''sda'' \<and>
   \<not> DiskCollector_keeps ''sda1'' \<and> DiskCollector_keeps ''nvme0n1'' \<and>
   \<not> DiskCollector_keeps ''nvme0n1p1''"
  by (simp add: DiskCollector_keeps_def is_partition_def found_def isdigit_def)

text \<open>
  Claim C4. The condition of the code is the rule of the specification for every name;
  the names of the records after a refresh are the names of the lines that the rule
  keeps, in the order of the source; and the five names of the specification are
  decided as it says.
\<close>

theorem Disk_filtering_rule:
  "(DiskCollector_keeps name \<longleftrightarrow> spec_disk_kept name)
   \<and> map disk_name (disks (fst (DiskCollector_update ind (Some text) d)))
       = filter spec_disk_kept (map diskstats_name (getlines text))
   \<and> \<not> DiskCollector_keeps ''loop3'' \<and> DiskCollector_keeps ''sda''
   \<and> \<not> DiskCollector_keeps ''sda1'' \<and> DiskCollector_keeps ''nvme0n1''
   \<and> \<not> DiskCollector_keeps ''nvme0n1p1''"
proof -
  have "filter DiskCollector_keeps = filter spec_disk_kept"
    by (rule arg_cong [where f = filter]) (simp add: fun_eq_iff keeps_iff_spec)
  then have "map disk_name (disks (fst (DiskCollector_update ind (Some text) d)))
       = filter spec_disk_kept (map diskstats_name (getlines text))"
    by (simp add: DiskCollector_update_def DiskCollector_do_collect_def
        DiskCollector_do_parse_def DiskCollector_parse_lines_names)
  with keeps_iff_spec five_names show ?thesis by blast
qed

lemma names_eval:
  "diskstats_name ''   7       3 loop3 12 0 34 5 0 0 0 0 0 6 0'' = ''loop3''"
  "diskstats_name ''   8       0 sda 100 1 2000 3 50 4 1000 5 0 6 7'' = ''sda''"
  "diskstats_name ''   8       1 sda1 90 1 1800 3 40 4 800 5 0 6 7'' = ''sda1''"
  "diskstats_name '' 259       0 nvme0n1 500 0 9000 7 300 2 7000 8 0 9 15'' = ''nvme0n1''"
  "diskstats_name '' 259       1 nvme0n1p1 400 0 8000 6 200 2 6000 7 0 8 13'' = ''nvme0n1p1''"
  by (simp_all add: diskstats_name_def extract_diskstats_def stream_eval)

theorem Disk_filtering_rule_witness:
  "map disk_name (disks (fst (DiskCollector_update (\<lambda>i k. 0)
      (Some ''   7       3 loop3 12 0 34 5 0 0 0 0 0 6 0\<newline>   8       0 sda 100 1 2000 3 50 4 1000 5 0 6 7\<newline>   8       1 sda1 90 1 1800 3 40 4 800 5 0 6 7\<newline> 259       0 nvme0n1 500 0 9000 7 300 2 7000 8 0 9 15\<newline> 259       1 nvme0n1p1 400 0 8000 6 200 2 6000 7 0 8 13\<newline>'')
      DiskCollector_new)))
   = [''sda'', ''nvme0n1'']"
proof -
  have k: "\<not> spec_disk_kept ''loop3'' \<and> spec_disk_kept ''sda'' \<and> \<not> spec_disk_kept ''sda1''
      \<and> spec_disk_kept ''nvme0n1'' \<and> \<not> spec_disk_kept ''nvme0n1p1''"
    by (simp add: spec_disk_kept_def spec_is_partition_def found_def isdigit_def)
  have l: "getlines ''   7       3 loop3 12 0 34 5 0 0 0 0 0 6 0\<newline>   8       0 sda 100 1 2000 3 50 4 1000 5 0 6 7\<newline>   8       1 sda1 90 1 1800 3 40 4 800 5 0 6 7\<newline> 259       0 nvme0n1 500 0 9000 7 300 2 7000 8 0 9 15\<newline> 259       1 nvme0n1p1 400 0 8000 6 200 2 6000 7 0 8 13\<newline>''
    = [''   7       3 loop3 12 0 34 5 0 0 0 0 0 6 0'',
       ''   8       0 sda 100 1 2000 3 50 4 1000 5 0 6 7'',
       ''   8       1 sda1 90 1 1800 3 40 4 800 5 0 6 7'',
       '' 259       0 nvme0n1 500 0 9000 7 300 2 7000 8 0 9 15'',
       '' 259       1 nvme0n1p1 400 0 8000 6 200 2 6000 7 0 8 13'']"
    by (simp add: getlines_def)
  show ?thesis
    using Disk_filtering_rule [of "''sda''" "\<lambda>i k. 0"
      "''   7       3 loop3 12 0 34 5 0 0 0 0 0 6 0\<newline>   8       0 sda 100 1 2000 3 50 4 1000 5 0 6 7\<newline>   8       1 sda1 90 1 1800 3 40 4 800 5 0 6 7\<newline> 259       0 nvme0n1 500 0 9000 7 300 2 7000 8 0 9 15\<newline> 259       1 nvme0n1p1 400 0 8000 6 200 2 6000 7 0 8 13\<newline>''"
      DiskCollector_new] k
    by (simp add: l names_eval)
qed

section \<open>The network collector: header, colon and counters\<close>

lemma find_chr_None_iff: "find_chr s c = None \<longleftrightarrow> c \<notin> set s"
  by (induction s) (auto simp: find_chr_def)

lemma find_chr_Some:
  "find_chr s c = Some i \<Longrightarrow>
     take i s = takeWhile (\<lambda>x. x \<noteq> c) s \<and> drop (i + 1) s = tl (dropWhile (\<lambda>x. x \<noteq> c) s)
     \<and> i < length s \<and> s ! i = c"
proof (induction s arbitrary: i)
  case Nil
  then show ?case by (simp add: find_chr_def)
next
  case (Cons x xs)
  show ?case
  proof (cases "x = c")
    case True
    with Cons.prems show ?thesis by (simp add: find_chr_def)
  next
    case False
    with Cons.prems obtain j where j: "find_chr xs c = Some j" "i = Suc j"
      by (auto simp: find_chr_def)
    with Cons.IH [OF j(1)] False show ?thesis by simp
  qed
qed

lemma NetworkCollector_parse_line_spec:
  "NetworkCollector_parse_line line ifs =
     (if has_colon line then ifs @ [split_at_colon line] else ifs)"
proof (cases "find_chr line CHR '':''")
  case None
  then have "\<not> has_colon line"
    by (simp add: has_colon_def find_chr_None_iff)
  with None show ?thesis
    by (simp add: NetworkCollector_parse_line_def)
next
  case (Some i)
  then have "has_colon line"
    using find_chr_None_iff [of line "CHR '':''"] by (simp add: has_colon_def)
  with Some find_chr_Some [OF Some] show ?thesis
    by (simp add: NetworkCollector_parse_line_def split_at_colon_def)
qed

lemma NetworkCollector_parse_lines_body:
  "2 \<le> n \<Longrightarrow> NetworkCollector_parse_lines n ls ifs =
     ifs @ map split_at_colon (filter has_colon ls)"
  by (induction ls arbitrary: n ifs) (simp_all add: NetworkCollector_parse_line_spec)

lemma NetworkCollector_parse_lines_spec:
  "NetworkCollector_parse_lines 0 ls [] = map split_at_colon (filter has_colon (drop 2 ls))"
proof (cases ls)
  case Nil
  then show ?thesis by simp
next
  case (Cons a as)
  show ?thesis
  proof (cases as)
    case Nil
    with Cons show ?thesis by simp
  next
    case (Cons b bs)
    with \<open>ls = a # as\<close> show ?thesis
      by (simp add: NetworkCollector_parse_lines_body)
  qed
qed

lemma NetworkCollector_update_spec:
  "interfaces (fst (NetworkCollector_update (Some text) n)) =
     map split_at_colon (filter has_colon (drop 2 (getlines text)))"
  by (simp add: NetworkCollector_update_def NetworkCollector_do_collect_def
      NetworkCollector_do_parse_def NetworkCollector_parse_lines_spec)

lemma eth0_line:
  "split_at_colon ''  eth0: 1000 10 0 0 0 0 0 0 2000 20 0 0 0 0 0 0'' =
     \<lparr>iface_name = ''eth0'', rx_bytes = 1000, tx_bytes = 2000, rx_packets = 10,
      tx_packets = 20\<rparr>"
  by (simp add: split_at_colon_def extract_interface_def stream_eval)

lemma getlines_from_append:
  "CHR 0x0A \<notin> set h \<Longrightarrow>
     getlines_from acc (h @ CHR 0x0A # rest) = (rev acc @ h) # getlines_from [] rest"
  by (induction h arbitrary: acc) auto

lemma getlines_append:
  "CHR 0x0A \<notin> set h \<Longrightarrow> getlines (h @ CHR 0x0A # rest) = h # getlines rest"
  using getlines_from_append [of h "[]" rest] by (simp add: getlines_def)

lemma dropWhile_spaces:
  "list_all isspace w \<Longrightarrow> d \<noteq> [] \<Longrightarrow> list_all isdigit d \<Longrightarrow>
     dropWhile isspace (w @ d @ r) = d @ r"
proof -
  assume w: "list_all isspace w" and d: "d \<noteq> []" "list_all isdigit d"
  from d obtain c cs where c: "d = c # cs" "isdigit c" by (cases d) auto
  have "dropWhile isspace (w @ d @ r) = dropWhile isspace (d @ r)"
    using w by (simp add: list_all_iff dropWhile_append2)
  also have "\<dots> = d @ r"
    using c isdigit_not_isspace [of c] by simp
  finally show ?thesis .
qed

lemma scan_number_field:
  assumes "d \<noteq> []" and "list_all isdigit d" and "r = [] \<or> \<not> isdigit (hd r)"
  shows "scan_number (d @ r) = (False, d, r)"
proof -
  from assms obtain c cs where c: "d = c # cs" "isdigit c" by (cases d) auto
  have t: "takeWhile isdigit (d @ r) = d" "dropWhile isdigit (d @ r) = r"
    using assms(2,3) by (cases r; simp add: list_all_iff takeWhile_append2 dropWhile_append2)+
  show ?thesis
    using isdigit_not_sign [OF c(2)] t by (simp add: c scan_number_def)
qed

lemma get_unsigned_field:
  assumes "list_all isspace w" and "d \<noteq> []" and "list_all isdigit d"
    and "nat_of_digits d < 2 ^ 64" and "r = [] \<or> \<not> isdigit (hd r)"
  shows "get_unsigned \<lparr>buf = w @ d @ r, eofbit = False, failbit = False\<rparr> (old :: uint64_t) =
     (of_nat (nat_of_digits d), \<lparr>buf = r, eofbit = (r = []), failbit = False\<rparr>)"
  using assms
  by (simp add: get_unsigned_def sentry_def dropWhile_spaces scan_number_field Let_def)

lemma next_field_starts:
  assumes "next_field w d"
  shows "w @ x \<noteq> []" and "\<not> isdigit (hd (w @ x))"
proof -
  from assms obtain c cs where c: "w = c # cs" "isspace c"
    by (cases w) (auto simp: next_field_def number_field_def)
  show "w @ x \<noteq> []" by (simp add: c)
  show "\<not> isdigit (hd (w @ x))"
    using c isdigit_not_isspace [of c] by auto
qed

lemma get_unsigned_number_field:
  assumes "number_field w d" and "r = [] \<or> \<not> isdigit (hd r)"
  shows "get_unsigned \<lparr>buf = w @ d @ r, eofbit = False, failbit = False\<rparr> (old :: uint64_t) =
     (of_nat (nat_of_digits d), \<lparr>buf = r, eofbit = (r = []), failbit = False\<rparr>)"
  using assms by (simp add: number_field_def get_unsigned_field)

lemma get_unsigned_before_next:
  assumes "number_field w d" and "next_field w' d'"
  shows "get_unsigned \<lparr>buf = w @ d @ w' @ x, eofbit = False, failbit = False\<rparr> (old :: uint64_t) =
     (of_nat (nat_of_digits d), \<lparr>buf = w' @ x, eofbit = False, failbit = False\<rparr>)"
  using get_unsigned_number_field [OF assms(1), of "w' @ x" old] next_field_starts [OF assms(2), of x]
  by simp

lemma extract_interface_fields:
  assumes f1: "number_field w1 d1" and f2: "next_field w2 d2" and f3: "next_field w3 d3"
    and f4: "next_field w4 d4" and f5: "next_field w5 d5" and f6: "next_field w6 d6"
    and f7: "next_field w7 d7" and f8: "next_field w8 d8" and f9: "next_field w9 d9"
    and f10: "next_field w10 d10" and r: "r = [] \<or> \<not> isdigit (hd r)"
  shows "extract_interface name
           (w1 @ d1 @ w2 @ d2 @ w3 @ d3 @ w4 @ d4 @ w5 @ d5 @ w6 @ d6 @ w7 @ d7 @ w8 @ d8
              @ w9 @ d9 @ w10 @ d10 @ r) =
         \<lparr>iface_name = name, rx_bytes = of_nat (nat_of_digits d1),
          tx_bytes = of_nat (nat_of_digits d9), rx_packets = of_nat (nat_of_digits d2),
          tx_packets = of_nat (nat_of_digits d10)\<rparr>"
proof -
  note n = f2 [unfolded next_field_def, THEN conjunct2] f3 [unfolded next_field_def, THEN conjunct2]
    f4 [unfolded next_field_def, THEN conjunct2] f5 [unfolded next_field_def, THEN conjunct2]
    f6 [unfolded next_field_def, THEN conjunct2] f7 [unfolded next_field_def, THEN conjunct2]
    f8 [unfolded next_field_def, THEN conjunct2] f9 [unfolded next_field_def, THEN conjunct2]
    f10 [unfolded next_field_def, THEN conjunct2]
  show ?thesis
    unfolding extract_interface_def stringstream_def
    by (simp only: get_unsigned_before_next [OF f1 f2] get_unsigned_before_next [OF n(1) f3]
        get_unsigned_before_next [OF n(2) f4] get_unsigned_before_next [OF n(3) f5]
        get_unsigned_before_next [OF n(4) f6] get_unsigned_before_next [OF n(5) f7]
        get_unsigned_before_next [OF n(6) f8] get_unsigned_before_next [OF n(7) f9]
        get_unsigned_before_next [OF n(8) f10] get_unsigned_number_field [OF n(9) r]
        prod.case)
qed

text \<open>
  Claim C8, as the code has it. The records after a refresh are those of the lines after
  the first two that have a colon, each split at its first colon into the name, without
  its leading blanks and tabs and with all its other white space, and the statistics. Of statistics that start with ten decimal numbers below
  \<open>2 ^ 64\<close> separated by white space, the first is the received bytes, the second the
  received packets, the ninth the sent bytes and the tenth the sent packets. After any
  two header lines the line of the specification gives the record with 1000 and 10
  received, 2000 and 20 sent.
\<close>

theorem Network_parsing:
  "interfaces (fst (NetworkCollector_update (Some text) n)) =
     map split_at_colon (filter has_colon (drop 2 (getlines text)))
   \<and> (number_field w1 d1 \<and> next_field w2 d2 \<and> next_field w3 d3 \<and> next_field w4 d4
      \<and> next_field w5 d5 \<and> next_field w6 d6 \<and> next_field w7 d7 \<and> next_field w8 d8
      \<and> next_field w9 d9 \<and> next_field w10 d10 \<and> (r = [] \<or> \<not> isdigit (hd r)) \<longrightarrow>
      extract_interface name
        (w1 @ d1 @ w2 @ d2 @ w3 @ d3 @ w4 @ d4 @ w5 @ d5 @ w6 @ d6 @ w7 @ d7 @ w8 @ d8
           @ w9 @ d9 @ w10 @ d10 @ r) =
      \<lparr>iface_name = name, rx_bytes = of_nat (nat_of_digits d1),
       tx_bytes = of_nat (nat_of_digits d9), rx_packets = of_nat (nat_of_digits d2),
       tx_packets = of_nat (nat_of_digits d10)\<rparr>)
   \<and> (CHR 0x0A \<notin> set header1 \<and> CHR 0x0A \<notin> set header2 \<longrightarrow>
      interfaces (fst (NetworkCollector_update
        (Some (header1 @ CHR 0x0A # header2 @ CHR 0x0A
               # ''  eth0: 1000 10 0 0 0 0 0 0 2000 20 0 0 0 0 0 0'')) n)) =
      [\<lparr>iface_name = ''eth0'', rx_bytes = 1000, tx_bytes = 2000, rx_packets = 10,
        tx_packets = 20\<rparr>])"
proof -
  have "getlines ''  eth0: 1000 10 0 0 0 0 0 0 2000 20 0 0 0 0 0 0''
          = [''  eth0: 1000 10 0 0 0 0 0 0 2000 20 0 0 0 0 0 0'']"
    by (simp add: getlines_def)
  then have e: "CHR 0x0A \<notin> set header1 \<and> CHR 0x0A \<notin> set header2 \<longrightarrow>
      interfaces (fst (NetworkCollector_update
        (Some (header1 @ CHR 0x0A # header2 @ CHR 0x0A
               # ''  eth0: 1000 10 0 0 0 0 0 0 2000 20 0 0 0 0 0 0'')) n)) =
      [\<lparr>iface_name = ''eth0'', rx_bytes = 1000, tx_bytes = 2000, rx_packets = 10,
        tx_packets = 20\<rparr>]"
    by (simp add: NetworkCollector_update_spec getlines_append has_colon_def eth0_line)
  from NetworkCollector_update_spec [of "text" n]
    extract_interface_fields [of w1 d1 w2 d2 w3 d3 w4 d4 w5 d5 w6 d6 w7 d7 w8 d8 w9 d9 w10 d10 r name]
    e
  show ?thesis by blast
qed

theorem Network_parsing_witness:
  "interfaces (fst (NetworkCollector_update
     (Some ''Inter-|   Receive                                                |  Transmit\<newline> face |bytes    packets errs drop fifo frame compressed multicast|bytes    packets errs drop fifo colls carrier compressed\<newline>  eth0: 1000 10 0 0 0 0 0 0 2000 20 0 0 0 0 0 0'')
     NetworkCollector_new)) =
   [\<lparr>iface_name = ''eth0'', rx_bytes = 1000, tx_bytes = 2000, rx_packets = 10,
     tx_packets = 20\<rparr>]
   \<and> number_field '' '' ''1000'' \<and> next_field '' '' ''10'' \<and> next_field '' '' ''0''
   \<and> next_field '' '' ''2000'' \<and> next_field '' '' ''20''
   \<and> extract_interface ''lo'' ('' 1000 10 0 0 0 0 0 0 2000 20'' @ '' 0 0 0 0 0 0'') =
       \<lparr>iface_name = ''lo'', rx_bytes = 1000, tx_bytes = 2000, rx_packets = 10,
        tx_packets = 20\<rparr>"
proof -
  have f: "number_field '' '' ''1000''" "next_field '' '' ''10''" "next_field '' '' ''0''"
    "next_field '' '' ''2000''" "next_field '' '' ''20''"
    by (simp_all add: number_field_def next_field_def isspace_def isdigit_def nat_of_digits_def
        digit_val_def)
  have v: "(of_nat (nat_of_digits ''1000'') :: uint64_t) = 1000"
    "(of_nat (nat_of_digits ''10'') :: uint64_t) = 10"
    "(of_nat (nat_of_digits ''2000'') :: uint64_t) = 2000"
    "(of_nat (nat_of_digits ''20'') :: uint64_t) = 20"
    by (simp_all add: nat_of_digits_def digit_val_def)
  have a: "interfaces (fst (NetworkCollector_update
     (Some ''Inter-|   Receive                                                |  Transmit\<newline> face |bytes    packets errs drop fifo frame compressed multicast|bytes    packets errs drop fifo colls carrier compressed\<newline>  eth0: 1000 10 0 0 0 0 0 0 2000 20 0 0 0 0 0 0'')
     NetworkCollector_new)) =
   [\<lparr>iface_name = ''eth0'', rx_bytes = 1000, tx_bytes = 2000, rx_packets = 10,
     tx_packets = 20\<rparr>]"
    using Network_parsing [where n = NetworkCollector_new
       and ?header1.0 = "''Inter-|   Receive                                                |  Transmit''"
       and ?header2.0 = "'' face |bytes    packets errs drop fifo frame compressed multicast|bytes    packets errs drop fifo colls carrier compressed''",
       THEN conjunct2, THEN conjunct2]
    by simp
  have b: "extract_interface ''lo'' ('' 1000 10 0 0 0 0 0 0 2000 20'' @ '' 0 0 0 0 0 0'') =
       \<lparr>iface_name = ''lo'', rx_bytes = 1000, tx_bytes = 2000, rx_packets = 10,
        tx_packets = 20\<rparr>"
    using Network_parsing [where name = "''lo''"
       and ?w1.0 = "'' ''" and ?d1.0 = "''1000''" and ?w2.0 = "'' ''" and ?d2.0 = "''10''"
       and ?w3.0 = "'' ''" and ?d3.0 = "''0''" and ?w4.0 = "'' ''" and ?d4.0 = "''0''"
       and ?w5.0 = "'' ''" and ?d5.0 = "''0''" and ?w6.0 = "'' ''" and ?d6.0 = "''0''"
       and ?w7.0 = "'' ''" and ?d7.0 = "''0''" and ?w8.0 = "'' ''" and ?d8.0 = "''0''"
       and ?w9.0 = "'' ''" and ?d9.0 = "''2000''" and ?w10.0 = "'' ''" and ?d10.0 = "''20''"
       and r = "'' 0 0 0 0 0 0''", THEN conjunct2, THEN conjunct1] f v
    by (simp add: isdigit_def)
  from a f b show ?thesis by blast
qed

text \<open>
  Claim C8 as stated fails on a name with other white space: the name is not trimmed.
  The line \<^verbatim>\<open>wlan0 : 1 2\<close> gives the name \<^verbatim>\<open>wlan0\<close> followed by a blank, and a line
  that starts with a carriage return gives a name that starts with it; the name of the
  specification is \<^verbatim>\<open>wlan0\<close> and \<^verbatim>\<open>eth0\<close>.
\<close>

theorem Network_name_white_space_counterexample:
  "interfaces (fst (NetworkCollector_update (Some white_space_dev) NetworkCollector_new)) =
     [\<lparr>iface_name = ''wlan0 '', rx_bytes = 1, tx_bytes = 0, rx_packets = 2, tx_packets = 0\<rparr>,
      \<lparr>iface_name = CHR 0x0D # ''eth0'', rx_bytes = 3, tx_bytes = 0, rx_packets = 4,
       tx_packets = 0\<rparr>]
   \<and> getlines white_space_dev = [''h1'', ''h2'', ''wlan0 : 1 2'', CHR 0x0D # ''eth0: 3 4'']
   \<and> spec_interface_name ''wlan0 : 1 2'' = ''wlan0''
   \<and> spec_interface_name (CHR 0x0D # ''eth0: 3 4'') = ''eth0''
   \<and> spec_leading_trimmed_name (CHR 0x0D # ''eth0: 3 4'') = ''eth0''"
  by (simp add: NetworkCollector_update_def NetworkCollector_do_collect_def
      NetworkCollector_do_parse_def NetworkCollector_parse_line_def NetworkCollector_new_def
      white_space_dev_def getlines_def find_chr_def extract_interface_def
      spec_interface_name_def spec_leading_trimmed_name_def whitespace_trimmed_def stream_eval)

text \<open>
  Claim C10. A line without a colon adds no record, and the number of records is the
  number of lines after the header that have a colon.
\<close>

theorem Network_lines_without_colon:
  "(\<not> has_colon line \<longrightarrow> NetworkCollector_parse_line line ifs = ifs)
   \<and> length (interfaces (fst (NetworkCollector_update (Some text) n)))
       = length (filter has_colon (drop 2 (getlines text)))"
  by (simp add: NetworkCollector_update_spec NetworkCollector_parse_line_spec)

theorem Network_lines_without_colon_witness:
  "\<not> has_colon ''no colon here''
   \<and> NetworkCollector_parse_line ''no colon here'' [] = []
   \<and> getlines ''h1\<newline>h2\<newline>no colon here\<newline>lo: 1 2\<newline>''
       = [''h1'', ''h2'', ''no colon here'', ''lo: 1 2'']
   \<and> length (interfaces (fst (NetworkCollector_update
        (Some ''h1\<newline>h2\<newline>no colon here\<newline>lo: 1 2\<newline>'') NetworkCollector_new))) = 1"
proof -
  have g: "getlines ''h1\<newline>h2\<newline>no colon here\<newline>lo: 1 2\<newline>''
       = [''h1'', ''h2'', ''no colon here'', ''lo: 1 2'']"
    by (simp add: getlines_def)
  have c: "\<not> has_colon ''no colon here''" "has_colon ''lo: 1 2''"
    by (simp_all add: has_colon_def)
  show ?thesis
    using Network_lines_without_colon [of "''no colon here''" "[]"
        "''h1\<newline>h2\<newline>no colon here\<newline>lo: 1 2\<newline>''" NetworkCollector_new] c
    by (simp add: g)
qed

section \<open>The process collector: the scan\<close>

lemma find_chr_first_pos: "first_pos s c i \<Longrightarrow> find_chr s c = Some i"
proof (induction s arbitrary: i)
  case Nil
  then show ?case by (simp add: first_pos_def)
next
  case (Cons x xs)
  show ?case
  proof (cases i)
    case 0
    with Cons.prems show ?thesis by (simp add: first_pos_def find_chr_def)
  next
    case (Suc j)
    with Cons.prems have "x \<noteq> c" and "first_pos xs c j"
      by (auto simp: first_pos_def)
    with Cons.IH [of j] Suc show ?thesis by (simp add: find_chr_def)
  qed
qed

lemma rfind_chr_None: "c \<notin> set s \<Longrightarrow> rfind_chr s c = None"
  by (induction s) auto

lemma rfind_chr_last_pos: "last_pos s c i \<Longrightarrow> rfind_chr s c = Some i"
proof (induction s arbitrary: i)
  case Nil
  then show ?case by (simp add: last_pos_def)
next
  case (Cons x xs)
  show ?case
  proof (cases i)
    case 0
    with Cons.prems show ?thesis by (simp add: last_pos_def rfind_chr_None)
  next
    case (Suc j)
    with Cons.prems have "last_pos xs c j"
      by (auto simp: last_pos_def)
    with Cons.IH [of j] Suc show ?thesis by simp
  qed
qed

lemma scan_number_digits:
  assumes "is_pid name"
  shows "scan_number (dropWhile isspace name) = (False, name, [])"
proof -
  from assms obtain c cs where n: "name = c # cs" and d: "isdigit c" and a: "list_all isdigit name"
    by (cases name) (auto simp: is_pid_def)
  have t: "takeWhile isdigit name = name" "dropWhile isdigit name = []"
    using a by (simp_all add: list_all_iff)
  show ?thesis
    using isdigit_not_isspace [OF d] isdigit_not_sign [OF d] t
    by (simp add: n scan_number_def)
qed

lemma stoi_pid:
  assumes "is_pid name" and "nat_of_digits name < 2 ^ 31"
  shows "stoi name = Inr (int (nat_of_digits name))"
proof -
  from assms(1) have "name \<noteq> []" by (simp add: is_pid_def)
  moreover have "int (nat_of_digits name) < 2 ^ 31"
    using assms(2) by (metis of_nat_less_iff of_nat_numeral of_nat_power)
  moreover have "\<not> int (nat_of_digits name) < - (2 ^ 31)"
  proof -
    have "(0::int) \<le> int (nat_of_digits name)" and "(0::int) < 2 ^ 31" by simp_all
    then show ?thesis by linarith
  qed
  ultimately show ?thesis
    by (simp add: stoi_def scan_number_digits [OF assms(1)] Let_def)
qed

lemma not_pid_skipped:
  "\<not> is_pid (d_name entry) \<Longrightarrow> ProcessCollector_scan_entry stat_file g entry p = Inr p"
  by (simp add: ProcessCollector_scan_entry_def)

lemma not_dir_skipped:
  "d_type entry \<noteq> DT_DIR \<Longrightarrow> ProcessCollector_scan_entry stat_file g entry p = Inr p"
  by (simp add: ProcessCollector_scan_entry_def)

lemma scan_entry_parsed:
  assumes "d_type entry = DT_DIR" and "is_pid (d_name entry)"
    and "nat_of_digits (d_name entry) < 2 ^ 31"
    and "stat_file (d_name entry) = Some text" and "getline text = Some line"
    and "first_pos line CHR ''('' start" and "last_pos line CHR '')'' end'"
    and "start < end'" and "end' + 2 \<le> length line"
  shows "ProcessCollector_scan_entry stat_file g entry p =
     (case extract_stat g (drop (end' + 2) line) of
        (st, vs, r) \<Rightarrow>
          Inr (p\<lparr>running_processes :=
                  (if st = CHR ''R'' then running_processes p + 1 else running_processes p),
                processes := processes p @
                  [\<lparr>pid = int (nat_of_digits (d_name entry)),
                    proc_name = take (end' - start - 1) (drop (start + 1) line),
                    state = st, vsize = vs, rss = r\<rparr>],
                total_processes := total_processes p + 1\<rparr>))"
  using assms
  by (simp add: ProcessCollector_scan_entry_def stoi_pid find_chr_first_pos rfind_chr_last_pos
      substr_from_def substr_between_def)

lemma scan_entry_counts:
  assumes "counts_ok p" and "ProcessCollector_scan_entry stat_file g entry p = Inr p'"
  shows "counts_ok p'"
  using assms
  by (auto simp: ProcessCollector_scan_entry_def counts_ok_def
      split: if_splits sum.splits option.splits prod.splits)

lemma scan_counts:
  "counts_ok p \<Longrightarrow> ProcessCollector_scan stat_file ind i entries p = Inr p' \<Longrightarrow> counts_ok p'"
proof (induction entries arbitrary: i p)
  case Nil
  then show ?case by simp
next
  case (Cons e es)
  from Cons.prems(2) obtain q where q: "ProcessCollector_scan_entry stat_file (ind i) e p = Inr q"
    and r: "ProcessCollector_scan stat_file ind (Suc i) es q = Inr p'"
    by (auto split: sum.splits)
  from scan_entry_counts [OF Cons.prems(1) q] have "counts_ok q" .
  then show ?case using r by (rule Cons.IH)
qed

lemma mset_sort_insert: "mset (sort_insert cmp x xs) = add_mset x (mset xs)"
  by (induction xs) simp_all

lemma mset_std_sort: "mset (std_sort cmp xs) = mset xs"
  by (induction xs) (simp_all add: mset_sort_insert)

lemma set_sort_insert: "set (sort_insert cmp x xs) = insert x (set xs)"
  using mset_sort_insert [of cmp x xs, THEN arg_cong, of set_mset] by simp

lemma length_std_sort: "length (std_sort cmp xs) = length xs"
  using mset_std_sort [of cmp xs, THEN arg_cong, of size] by simp

lemma filter_length_std_sort:
  "length (filter P (std_sort cmp xs)) = length (filter P xs)"
proof -
  have "mset (filter P (std_sort cmp xs)) = mset (filter P xs)"
    by (simp add: mset_std_sort)
  then show ?thesis by (metis size_mset)
qed

lemma rss_descending_sort_insert:
  "rss_descending xs \<Longrightarrow> rss_descending (sort_insert (\<lambda>a b. rss b < rss a) x xs)"
  by (induction xs) (auto simp: rss_descending_def set_sort_insert)

lemma rss_descending_std_sort: "rss_descending (std_sort (\<lambda>a b. rss b < rss a) xs)"
proof (induction xs)
  case Nil
  then show ?case by (simp add: rss_descending_def)
next
  case (Cons x xs)
  then show ?case by (simp add: rss_descending_sort_insert)
qed

lemma map_sort_insert:
  "map f (sort_insert (\<lambda>a b. cmp (f a) (f b)) x xs) = sort_insert cmp (f x) (map f xs)"
  by (induction xs) simp_all

lemma map_std_sort:
  "map f (std_sort (\<lambda>a b. cmp (f a) (f b)) xs) = std_sort cmp (map f xs)"
  by (induction xs) (simp_all add: map_sort_insert)

lemma do_parse_counts:
  assumes "ProcessCollector_do_parse (Some entries) stat_file ind p = Inr (p', msgs)"
  shows "counts_ok p'"
proof -
  from assms obtain q where
    q: "ProcessCollector_scan stat_file ind 0 entries
          (p\<lparr>processes := [], total_processes := 0, running_processes := 0\<rparr>) = Inr q"
    and p': "p' = q\<lparr>processes := std_sort (\<lambda>a b. rss b < rss a) (processes q)\<rparr>"
    by (auto simp: ProcessCollector_do_parse_def split: sum.splits)
  have "counts_ok (p\<lparr>processes := [], total_processes := 0, running_processes := 0\<rparr>)"
    by (simp add: counts_ok_def)
  from scan_counts [OF this q] show ?thesis
    by (simp add: p' counts_ok_def length_std_sort filter_length_std_sort)
qed

lemma do_parse_sorted:
  assumes "ProcessCollector_do_parse dir stat_file ind p = Inr (p', msgs)"
    and "dir \<noteq> None \<or> rss_descending (processes p)"
  shows "rss_descending (processes p')"
  using assms
  by (auto simp: ProcessCollector_do_parse_def rss_descending_std_sort
      split: option.splits sum.splits)

lemma print_top_take: "print_top cnt ps =
  map (\<lambda>proc. (pid proc, proc_name proc,
          double_div (double_mult (double_of_int64 (rss proc)) 4) 1024)) (take (5 - cnt) ps)"
proof (induction ps arbitrary: cnt)
  case Nil
  then show ?case by simp
next
  case (Cons a ps)
  show ?case
  proof (cases "5 \<le> cnt")
    case True
    then show ?thesis by simp
  next
    case False
    then have "5 - cnt = Suc (5 - (cnt + 1))" by simp
    with False Cons.IH [of "cnt + 1"] show ?thesis by (simp del: diff_Suc_eq_diff_pred)
  qed
qed

lemma first_line_append: "CHR 0x0A \<notin> set a \<Longrightarrow> first_line (a @ r) = a @ first_line r"
  unfolding first_line_def by (rule takeWhile_append2) auto

lemma first_line_keeps_out: "c \<notin> set r \<Longrightarrow> c \<notin> set (first_line r)"
  by (auto simp: first_line_def dest: set_takeWhileD)

lemma extract_stat_state:
  "\<not> isspace c \<Longrightarrow> \<exists>vs r. extract_stat g (c # cs) = (c, vs, r)"
  by (simp add: extract_stat_def get_char_def sentry_def stringstream_def split: prod.splits)

lemma my_proc_line:
  assumes "d_type entry = DT_DIR" and "d_name entry = ''1234''"
    and "stat_file ''1234'' = Some (''1234 (my proc) R 1'' @ rest)"
    and "CHR '')'' \<notin> set rest"
  shows "\<exists>vs r. ProcessCollector_scan_entry stat_file g entry p =
     Inr (p\<lparr>running_processes := running_processes p + 1,
           processes := processes p @
             [\<lparr>pid = 1234, proc_name = ''my proc'', state = CHR ''R'', vsize = vs, rss = r\<rparr>],
           total_processes := total_processes p + 1\<rparr>)"
proof -
  let ?line = "''1234 (my proc) R 1'' @ first_line rest"
  have k: "CHR '')'' \<notin> set (first_line rest)"
    using assms(4) by (rule first_line_keeps_out)
  have pid: "is_pid (d_name entry)" "nat_of_digits (d_name entry) = 1234"
    by (simp_all add: assms(2) is_pid_def isdigit_def nat_of_digits_def digit_val_def)
  have gl: "getline (''1234 (my proc) R 1'' @ rest) = Some ?line"
    using first_line_append [of "''1234 (my proc) R 1''" rest] by (simp add: getline_def)
  have fp: "first_pos ?line CHR ''('' 5"
    by (simp add: first_pos_def)
  have lp: "last_pos ?line CHR '')'' 13"
    using k by (simp add: last_pos_def)
  obtain vs r where e: "extract_stat g (CHR ''R'' # '' 1'' @ first_line rest) = (CHR ''R'', vs, r)"
    using extract_stat_state [of "CHR ''R''" g "'' 1'' @ first_line rest"]
    by (auto simp: isspace_def)
  have "ProcessCollector_scan_entry stat_file g entry p =
     Inr (p\<lparr>running_processes := running_processes p + 1,
           processes := processes p @
             [\<lparr>pid = 1234, proc_name = ''my proc'', state = CHR ''R'', vsize = vs, rss = r\<rparr>],
           total_processes := total_processes p + 1\<rparr>)"
    using scan_entry_parsed [of entry stat_file "''1234 (my proc) R 1'' @ rest" ?line 5 13 g p,
        OF assms(1) pid(1) _ _ gl fp lp] assms(2,3) pid(2) e
    by simp
  then show ?thesis by blast
qed

text \<open>
  The scan on entries of the expected form. An entry whose name is not made of decimal
  digits leaves the collector as it is. For an entry that is a directory with a numeric name (one that is an \<^verbatim>\<open>int\<close>),
  whose stat file gives a line with its first \<^verbatim>\<open>(\<close> at \<open>start\<close> before its last
  \<^verbatim>\<open>)\<close> at \<open>end'\<close> and at least one character after it, the scan appends one record:
  the pid is the number of the name, the process name is the text between the two
  positions, the state is the one extracted after the parenthesis, and the count of
  running processes grows exactly when that state is \<^verbatim>\<open>R\<close>. The line
  \<^verbatim>\<open>1234 (my proc) R 1 ...\<close> gives pid 1234, name \<^verbatim>\<open>my proc\<close> and state \<^verbatim>\<open>R\<close>. After a
  scan the total count is the number of records and the running count the number of
  records in state \<^verbatim>\<open>R\<close>.
\<close>

theorem Process_scan:
  "(\<not> list_all isdigit (d_name entry)
      \<longrightarrow> ProcessCollector_scan_entry stat_file g entry p = Inr p)
   \<and> (d_type entry = DT_DIR \<and> is_pid (d_name entry) \<and> nat_of_digits (d_name entry) < 2 ^ 31
      \<and> stat_file (d_name entry) = Some text \<and> getline text = Some line
      \<and> first_pos line CHR ''('' start \<and> last_pos line CHR '')'' end' \<and> start < end'
      \<and> end' + 2 \<le> length line
      \<longrightarrow> ProcessCollector_scan_entry stat_file g entry p =
           (case extract_stat g (drop (end' + 2) line) of
              (st, vs, r) \<Rightarrow>
                Inr (p\<lparr>running_processes :=
                        (if st = CHR ''R'' then running_processes p + 1
                         else running_processes p),
                      processes := processes p @
                        [\<lparr>pid = int (nat_of_digits (d_name entry)),
                          proc_name = take (end' - start - 1) (drop (start + 1) line),
                          state = st, vsize = vs, rss = r\<rparr>],
                      total_processes := total_processes p + 1\<rparr>)))
   \<and> (d_type entry = DT_DIR \<and> d_name entry = ''1234''
      \<and> stat_file ''1234'' = Some (''1234 (my proc) R 1'' @ rest) \<and> CHR '')'' \<notin> set rest
      \<longrightarrow> (\<exists>vs r. ProcessCollector_scan_entry stat_file g entry p =
             Inr (p\<lparr>running_processes := running_processes p + 1,
                   processes := processes p @
                     [\<lparr>pid = 1234, proc_name = ''my proc'', state = CHR ''R'', vsize = vs,
                       rss = r\<rparr>],
                   total_processes := total_processes p + 1\<rparr>)))
   \<and> (ProcessCollector_do_parse (Some entries) stat_file ind p = Inr (p', msgs)
      \<longrightarrow> total_processes p' = int (length (processes p'))
          \<and> running_processes p'
              = int (length (filter (\<lambda>i. state i = CHR ''R'') (processes p'))))"
proof -
  have a: "\<not> list_all isdigit (d_name entry)
      \<longrightarrow> ProcessCollector_scan_entry stat_file g entry p = Inr p"
    by (simp add: not_pid_skipped is_pid_def)
  have d: "ProcessCollector_do_parse (Some entries) stat_file ind p = Inr (p', msgs)
      \<longrightarrow> total_processes p' = int (length (processes p'))
          \<and> running_processes p'
              = int (length (filter (\<lambda>i. state i = CHR ''R'') (processes p')))"
    using do_parse_counts [of entries stat_file ind p p' msgs] by (simp add: counts_ok_def)
  from a scan_entry_parsed [of entry stat_file "text" line start end' g p]
    my_proc_line [of entry stat_file rest g p] d
  show ?thesis by blast
qed

lemma example_proc_parsed:
  "ProcessCollector_do_parse (Some example_proc) example_stat (\<lambda>i. zero_ProcessInfo)
     ProcessCollector_new =
   Inr (\<lparr>proc_raw_data = [],
         processes =
           [\<lparr>pid = 1234, proc_name = ''my proc'', state = CHR ''R'', vsize = 1000000, rss = 250\<rparr>,
            \<lparr>pid = 77, proc_name = ''kworker/0:1'', state = CHR ''S'', vsize = 0, rss = 0\<rparr>],
         total_processes = 2, running_processes = 1\<rparr>, [])"
  by (simp add: ProcessCollector_do_parse_def example_proc_def example_stat_def
      ProcessCollector_scan_entry_def is_pid_def stoi_def getline_def first_line_def find_chr_def
      substr_from_def substr_between_def ProcessCollector_new_def extract_stat_def stream_eval)

theorem Process_scan_witness:
  "\<not> list_all isdigit ''net''
   \<and> ProcessCollector_scan_entry example_stat zero_ProcessInfo
        \<lparr>d_type = DT_DIR, d_name = ''net''\<rparr> ProcessCollector_new = Inr ProcessCollector_new
   \<and> first_pos ''1234 (my proc) R 1 1234 1234 0 -1 4194304 100 0 0 0 5 6 0 0 20 0 1 0 100 1000000 250 18446744073709551615'' CHR ''('' 5
   \<and> last_pos ''1234 (my proc) R 1 1234 1234 0 -1 4194304 100 0 0 0 5 6 0 0 20 0 1 0 100 1000000 250 18446744073709551615'' CHR '')'' 13
   \<and> ProcessCollector_scan_entry example_stat zero_ProcessInfo
        \<lparr>d_type = DT_DIR, d_name = ''1234''\<rparr> ProcessCollector_new =
      Inr (ProcessCollector_new
            \<lparr>running_processes := 1,
             processes := [\<lparr>pid = 1234, proc_name = ''my proc'', state = CHR ''R'',
                            vsize = 1000000, rss = 250\<rparr>],
             total_processes := 1\<rparr>)
   \<and> (\<exists>p'. ProcessCollector_do_parse (Some example_proc) example_stat (\<lambda>i. zero_ProcessInfo)
              ProcessCollector_new = Inr (p', [])
           \<and> length (processes p') = 2 \<and> total_processes p' = 2 \<and> running_processes p' = 1)"
proof -
  let ?text = "''1234 (my proc) R 1 1234 1234 0 -1 4194304 100 0 0 0 5 6 0 0 20 0 1 0 100 1000000 250 18446744073709551615\<newline>''"
  let ?line = "''1234 (my proc) R 1 1234 1234 0 -1 4194304 100 0 0 0 5 6 0 0 20 0 1 0 100 1000000 250 18446744073709551615''"
  let ?e = "\<lparr>d_type = DT_DIR, d_name = ''1234''\<rparr>"
  have n: "\<not> list_all isdigit ''net''"
    by (simp add: isdigit_def)
  have a: "ProcessCollector_scan_entry example_stat zero_ProcessInfo
        \<lparr>d_type = DT_DIR, d_name = ''net''\<rparr> ProcessCollector_new = Inr ProcessCollector_new"
    using Process_scan [of "\<lparr>d_type = DT_DIR, d_name = ''net''\<rparr>" example_stat zero_ProcessInfo
        ProcessCollector_new] n
    by simp
  have h1: "is_pid (d_name ?e)" "nat_of_digits (d_name ?e) = 1234"
    by (simp_all add: is_pid_def isdigit_def nat_of_digits_def digit_val_def)
  have h2: "example_stat (d_name ?e) = Some ?text" "getline ?text = Some ?line"
    by (simp_all add: example_stat_def getline_def first_line_def)
  have h3: "first_pos ?line CHR ''('' 5" "last_pos ?line CHR '')'' 13"
    by (simp_all add: first_pos_def last_pos_def)
  have x: "extract_stat zero_ProcessInfo
       ''R 1 1234 1234 0 -1 4194304 100 0 0 0 5 6 0 0 20 0 1 0 100 1000000 250 18446744073709551615''
     = (CHR ''R'', 1000000, 250)"
    by (simp add: extract_stat_def stream_eval)
  have b: "ProcessCollector_scan_entry example_stat zero_ProcessInfo ?e ProcessCollector_new =
      Inr (ProcessCollector_new
            \<lparr>running_processes := 1,
             processes := [\<lparr>pid = 1234, proc_name = ''my proc'', state = CHR ''R'',
                            vsize = 1000000, rss = 250\<rparr>],
             total_processes := 1\<rparr>)"
    using Process_scan [of ?e example_stat zero_ProcessInfo ProcessCollector_new ?text ?line 5 13]
      h1 h2 h3
    by (simp add: x ProcessCollector_new_def)
  have c: "\<exists>p'. ProcessCollector_do_parse (Some example_proc) example_stat (\<lambda>i. zero_ProcessInfo)
              ProcessCollector_new = Inr (p', [])
           \<and> length (processes p') = 2 \<and> total_processes p' = 2 \<and> running_processes p' = 1"
    using Process_scan [where entries = example_proc and stat_file = example_stat
        and ind = "\<lambda>i. zero_ProcessInfo" and p = ProcessCollector_new and msgs = "[]"]
    by (simp add: example_proc_parsed)
  from n a h3 b c show ?thesis by blast
qed

text \<open>
  Claim C5 fails on a stat line that ends at its last closing parenthesis. For the
  process 1 the line \<^verbatim>\<open>1 (a)\<close> is read successfully, and the code asks
  \<^verbatim>\<open>line.substr(end + 2)\<close> for a position beyond the end of the line: the call throws
  \<^verbatim>\<open>std::out_of_range\<close>, the scan gives no record and no count, and the refresh ends
  with the exception. On the line \<^verbatim>\<open>1 ) (x y\<close> the length \<^verbatim>\<open>end - start - 1\<close> of the
  name wraps around: the name is all the text after the opening parenthesis, and the
  state is that parenthesis.
\<close>

theorem Process_scan_unexpected_stat_line:
  "getline ''1 (a)\<newline>'' = Some ''1 (a)''
   \<and> ProcessCollector_scan_entry short_stat zero_ProcessInfo \<lparr>d_type = DT_DIR, d_name = ''1''\<rparr>
       ProcessCollector_new = Inl Out_of_range
   \<and> ProcessCollector_update (Some one_proc) short_stat (\<lambda>i. zero_ProcessInfo)
       ProcessCollector_new = Inl Out_of_range
   \<and> ProcessCollector_update (Some one_proc) reversed_stat (\<lambda>i. zero_ProcessInfo)
       ProcessCollector_new =
     Inr (\<lparr>proc_raw_data = [],
           processes = [\<lparr>pid = 1, proc_name = ''x y'', state = CHR ''('', vsize = 0, rss = 0\<rparr>],
           total_processes = 1, running_processes = 0\<rparr>, [])"
  by (simp add: ProcessCollector_update_def ProcessCollector_do_collect_def
      ProcessCollector_do_parse_def one_proc_def short_stat_def reversed_stat_def
      ProcessCollector_scan_entry_def is_pid_def stoi_def getline_def first_line_def find_chr_def
      substr_from_def substr_between_def ProcessCollector_new_def extract_stat_def
      zero_ProcessInfo_def stream_eval)

section \<open>The process collector: order and rendering\<close>

text \<open>
  Claim C6. After a refresh that returns, the list is in descending order of resident
  set size (when \<^verbatim>\<open>/proc\<close> cannot be opened the list is the one of the last refresh,
  which was in that order; the list of a new collector is empty). The rendering prints
  the first five entries of the list and never more, each with its resident size in
  megabytes, \<open>rss * 4 / 1024\<close> in \<^verbatim>\<open>double\<close> arithmetic, which is that number itself
  for a resident size below \<open>2 ^ 53\<close> pages in absolute value; the printed megabytes
  descend with the list. Resident sizes 5, 50, 1, 100 are printed in the order 100, 50,
  5, 1.
\<close>

theorem Process_sorted_top_five:
  "(ProcessCollector_do_parse dir stat_file ind p = Inr (p', msgs)
      \<and> (dir \<noteq> None \<or> rss_descending (processes p))
      \<longrightarrow> rss_descending (processes p'))
   \<and> rss_descending (processes ProcessCollector_new)
   \<and> snd (snd (ProcessCollector_print_result p)) =
       map (\<lambda>proc. (pid proc, proc_name proc,
              double_div (double_mult (double_of_int64 (rss proc)) 4) 1024))
         (take 5 (processes p))
   \<and> ((\<forall>proc \<in> set (take 5 (processes p)). \<bar>rss proc\<bar> < 2 ^ 53)
      \<longrightarrow> snd (snd (ProcessCollector_print_result p)) =
          map (\<lambda>proc. (pid proc, proc_name proc, real_of_int (rss proc) * 4 / 1024))
            (take 5 (processes p)))
   \<and> length (snd (snd (ProcessCollector_print_result p))) \<le> 5
   \<and> (rss_descending (processes p)
      \<longrightarrow> sorted_wrt (\<lambda>a b. b \<le> a)
            (map (\<lambda>l. snd (snd l)) (snd (snd (ProcessCollector_print_result p)))))
   \<and> (map rss ps = [5, 50, 1, 100]
      \<longrightarrow> map rss (std_sort (\<lambda>a b. rss b < rss a) ps) = [100, 50, 5, 1]
          \<and> map (\<lambda>l. snd (snd l))
               (snd (snd (ProcessCollector_print_result
                  (p\<lparr>processes := std_sort (\<lambda>a b. rss b < rss a) ps\<rparr>))))
              = [100 * 4 / 1024, 50 * 4 / 1024, 5 * 4 / 1024, 1 * 4 / 1024])"
proof -
  have s: "ProcessCollector_do_parse dir stat_file ind p = Inr (p', msgs)
      \<and> (dir \<noteq> None \<or> rss_descending (processes p))
      \<longrightarrow> rss_descending (processes p')"
    using do_parse_sorted [of dir stat_file ind p p' msgs] by blast
  have n: "rss_descending (processes ProcessCollector_new)"
    by (simp add: ProcessCollector_new_def rss_descending_def)
  have t: "snd (snd (ProcessCollector_print_result p)) =
       map (\<lambda>proc. (pid proc, proc_name proc,
              double_div (double_mult (double_of_int64 (rss proc)) 4) 1024))
         (take 5 (processes p))"
    by (simp add: ProcessCollector_print_result_def print_top_take)
  have x: "snd (snd (ProcessCollector_print_result p)) =
          map (\<lambda>proc. (pid proc, proc_name proc, real_of_int (rss proc) * 4 / 1024))
            (take 5 (processes p))"
    if "\<forall>proc \<in> set (take 5 (processes p)). \<bar>rss proc\<bar> < 2 ^ 53"
    unfolding t using that by (simp add: megabytes_exact)
  have l: "length (snd (snd (ProcessCollector_print_result p))) \<le> 5"
    by (simp add: t)
  have o: "sorted_wrt (\<lambda>a b. b \<le> a)
            (map (\<lambda>l. snd (snd l)) (snd (snd (ProcessCollector_print_result p))))"
    if d: "rss_descending (processes p)"
  proof -
    have "sorted_wrt (\<lambda>a b. rss b \<le> rss a) (take 5 (processes p))"
      using d unfolding rss_descending_def by (rule sorted_wrt_take)
    then have "sorted_wrt (\<lambda>a b. double_div (double_mult (double_of_int64 (rss b)) 4) 1024
                                \<le> double_div (double_mult (double_of_int64 (rss a)) 4) 1024)
        (take 5 (processes p))"
      by (rule sorted_wrt_mono_rel [rotated]) (rule megabytes_mono)
    then show ?thesis
      by (simp add: t sorted_wrt_map comp_def)
  qed
  have e: "map rss (std_sort (\<lambda>a b. rss b < rss a) ps) = [100, 50, 5, 1]
          \<and> map (\<lambda>l. snd (snd l))
               (snd (snd (ProcessCollector_print_result
                  (p\<lparr>processes := std_sort (\<lambda>a b. rss b < rss a) ps\<rparr>))))
              = [100 * 4 / 1024, 50 * 4 / 1024, 5 * 4 / 1024, 1 * 4 / 1024]"
    if m: "map rss ps = [5, 50, 1, 100]"
  proof -
    have o: "map rss (std_sort (\<lambda>a b. rss b < rss a) ps) = [100, 50, 5, 1]"
      using map_std_sort [of rss "\<lambda>x y. y < x" ps] by (simp add: m)
    have "map (\<lambda>l. snd (snd l))
               (snd (snd (ProcessCollector_print_result
                  (p\<lparr>processes := std_sort (\<lambda>a b. rss b < rss a) ps\<rparr>))))
          = map (\<lambda>r. double_div (double_mult (double_of_int64 r) 4) 1024)
              (take 5 (map rss (std_sort (\<lambda>a b. rss b < rss a) ps)))"
      by (simp add: ProcessCollector_print_result_def print_top_take take_map comp_def)
    with o show ?thesis by (simp add: megabytes_exact)
  qed
  from s n t x l o e show ?thesis by blast
qed

lemma six_proc_parsed:
  "ProcessCollector_do_parse (Some six_proc) six_stat (\<lambda>i. zero_ProcessInfo)
     ProcessCollector_new =
   Inr (\<lparr>proc_raw_data = [],
         processes =
           [\<lparr>pid = 4, proc_name = ''d'', state = CHR ''R'', vsize = 4096, rss = 100\<rparr>,
            \<lparr>pid = 2, proc_name = ''b'', state = CHR ''S'', vsize = 4096, rss = 50\<rparr>,
            \<lparr>pid = 5, proc_name = ''e'', state = CHR ''S'', vsize = 4096, rss = 7\<rparr>,
            \<lparr>pid = 1, proc_name = ''a'', state = CHR ''S'', vsize = 4096, rss = 5\<rparr>,
            \<lparr>pid = 6, proc_name = ''f'', state = CHR ''S'', vsize = 4096, rss = 3\<rparr>,
            \<lparr>pid = 3, proc_name = ''c'', state = CHR ''S'', vsize = 4096, rss = 1\<rparr>],
         total_processes = 6, running_processes = 1\<rparr>, [])"
  by (simp add: ProcessCollector_do_parse_def six_proc_def six_stat_def
      ProcessCollector_scan_entry_def is_pid_def stoi_def getline_def first_line_def find_chr_def
      substr_from_def substr_between_def ProcessCollector_new_def extract_stat_def stream_eval)

theorem Process_sorted_top_five_witness:
  "(\<exists>p'. ProcessCollector_do_parse (Some six_proc) six_stat (\<lambda>i. zero_ProcessInfo)
            ProcessCollector_new = Inr (p', [])
         \<and> map rss (processes p') = [100, 50, 7, 5, 3, 1]
         \<and> rss_descending (processes p')
         \<and> map fst (snd (snd (ProcessCollector_print_result p'))) = [4, 2, 5, 1, 6]
         \<and> map (\<lambda>l. snd (snd l)) (snd (snd (ProcessCollector_print_result p')))
             = [100 * 4 / 1024, 50 * 4 / 1024, 7 * 4 / 1024, 5 * 4 / 1024, 3 * 4 / 1024])
   \<and> map rss (std_sort (\<lambda>a b. rss b < rss a)
        [\<lparr>pid = 1, proc_name = ''a'', state = CHR ''S'', vsize = 0, rss = 5\<rparr>,
         \<lparr>pid = 2, proc_name = ''b'', state = CHR ''S'', vsize = 0, rss = 50\<rparr>,
         \<lparr>pid = 3, proc_name = ''c'', state = CHR ''S'', vsize = 0, rss = 1\<rparr>,
         \<lparr>pid = 4, proc_name = ''d'', state = CHR ''S'', vsize = 0, rss = 100\<rparr>])
      = [100, 50, 5, 1]"
proof -
  let ?p = "\<lparr>proc_raw_data = [],
         processes =
           [\<lparr>pid = 4, proc_name = ''d'', state = CHR ''R'', vsize = 4096, rss = 100\<rparr>,
            \<lparr>pid = 2, proc_name = ''b'', state = CHR ''S'', vsize = 4096, rss = 50\<rparr>,
            \<lparr>pid = 5, proc_name = ''e'', state = CHR ''S'', vsize = 4096, rss = 7\<rparr>,
            \<lparr>pid = 1, proc_name = ''a'', state = CHR ''S'', vsize = 4096, rss = 5\<rparr>,
            \<lparr>pid = 6, proc_name = ''f'', state = CHR ''S'', vsize = 4096, rss = 3\<rparr>,
            \<lparr>pid = 3, proc_name = ''c'', state = CHR ''S'', vsize = 4096, rss = 1\<rparr>],
         total_processes = 6, running_processes = 1\<rparr>"
  let ?ps = "[\<lparr>pid = 1, proc_name = ''a'', state = CHR ''S'', vsize = 0, rss = 5\<rparr>,
         \<lparr>pid = 2, proc_name = ''b'', state = CHR ''S'', vsize = 0, rss = 50\<rparr>,
         \<lparr>pid = 3, proc_name = ''c'', state = CHR ''S'', vsize = 0, rss = 1\<rparr>,
         \<lparr>pid = 4, proc_name = ''d'', state = CHR ''S'', vsize = 0, rss = 100\<rparr>]"
  have d: "rss_descending (processes ?p)"
    using Process_sorted_top_five [of "Some six_proc" six_stat "\<lambda>i. zero_ProcessInfo"
        ProcessCollector_new ?p "[]"]
    by (simp add: six_proc_parsed)
  have t: "map fst (snd (snd (ProcessCollector_print_result ?p))) = [4, 2, 5, 1, 6]"
    "map (\<lambda>l. snd (snd l)) (snd (snd (ProcessCollector_print_result ?p)))
       = [100 * 4 / 1024, 50 * 4 / 1024, 7 * 4 / 1024, 5 * 4 / 1024, 3 * 4 / 1024]"
    using Process_sorted_top_five [where p = ?p, THEN conjunct2, THEN conjunct2, THEN conjunct2,
        THEN conjunct1]
    by simp_all
  have e: "map rss (std_sort (\<lambda>a b. rss b < rss a) ?ps) = [100, 50, 5, 1]"
    using Process_sorted_top_five [where ps = ?ps] by simp
  from six_proc_parsed d t e show ?thesis by simp
qed

section \<open>Sources that cannot be opened\<close>

lemma keep_or_idem: "keep_or g (keep_or g x) = keep_or g x"
  by (simp add: keep_or_def split: option.splits)

lemma keep_or_comp: "\<exists>k. \<forall>x. keep_or g (keep_or h x) = keep_or k x"
  by (cases g) (auto simp: keep_or_def intro: exI [of _ h] split: option.splits)

lemma CPU_unreachable_keeps_record:
  assumes "c1 = fst (CPUCollector_update u file c)"
  shows "snd (CPUCollector_update u None c1) = [LOG_ERROR_cannot_open ''/proc/stat'']"
    and "cpu_usage_percent (fst (CPUCollector_update u None c1)) = cpu_usage_percent c1"
    and "curr_total (fst (CPUCollector_update u None c1)) = curr_total c1"
    and "curr_idle (fst (CPUCollector_update u None c1)) = curr_idle c1"
  using assms
  by (auto simp: CPUCollector_update_def CPUCollector_do_collect_def CPUCollector_do_parse_def
      CPUCollector_do_calculate_def Let_def split: option.splits if_splits)

lemma Disk_unreachable_keeps_record:
  assumes "d1 = fst (DiskCollector_update ind file d)"
  shows "DiskCollector_update ind None d1 = (d1, [LOG_ERROR_cannot_open ''/proc/diskstats''])"
  using assms
  by (auto simp: DiskCollector_update_def DiskCollector_do_collect_def DiskCollector_do_parse_def
      split: option.splits)

lemma Network_unreachable_keeps_record:
  assumes "n1 = fst (NetworkCollector_update file n)"
  shows "NetworkCollector_update None n1 = (n1, [LOG_ERROR_cannot_open ''/proc/net/dev''])"
  using assms
  by (auto simp: NetworkCollector_update_def NetworkCollector_do_collect_def
      NetworkCollector_do_parse_def split: option.splits)

lemma Process_unreachable_keeps_record:
  "ProcessCollector_update None stat_file ind p =
     Inr (p\<lparr>proc_raw_data := []\<rparr>, [LOG_ERROR_cannot_open ''/proc''])"
  by (simp add: ProcessCollector_update_def ProcessCollector_do_parse_def
      ProcessCollector_do_collect_def)

lemma Memory_parse_line_fields:
  "\<exists>g1 g2 g3 g4 g5. \<forall>m.
     MemoryCollector_parse_line v line m =
       m\<lparr>total_kb := keep_or g1 (total_kb m), free_kb := keep_or g2 (free_kb m),
         available_kb := keep_or g3 (available_kb m), buffers_kb := keep_or g4 (buffers_kb m),
         cached_kb := keep_or g5 (cached_kb m)\<rparr>"
proof -
  obtain key s1 where k: "get_string (stringstream line) [] = (key, s1)"
    by (cases "get_string (stringstream line) []")
  obtain val s2 where w: "get_unsigned s1 v = (val, s2)"
    by (cases "get_unsigned s1 v")
  consider "key = ''MemTotal:''" | "key = ''MemFree:''" | "key = ''MemAvailable:''"
    | "key = ''Buffers:''" | "key = ''Cached:''"
    | "key \<noteq> ''MemTotal:''" "key \<noteq> ''MemFree:''" "key \<noteq> ''MemAvailable:''"
      "key \<noteq> ''Buffers:''" "key \<noteq> ''Cached:''"
    by blast
  then show ?thesis
  proof cases
    case 1
    then show ?thesis
      by (intro exI [of _ "Some val"] exI [of _ None])
        (simp add: MemoryCollector_parse_line_def k w keep_or_def split: prod.splits)
  next
    case 2
    then show ?thesis
      by (intro exI [of _ None] exI [of _ "Some val"] exI [of _ None] exI [of _ None] exI [of _ None])
        (simp add: MemoryCollector_parse_line_def k w keep_or_def split: prod.splits)
  next
    case 3
    then show ?thesis
      by (intro exI [of _ None] exI [of _ None] exI [of _ "Some val"] exI [of _ None] exI [of _ None])
        (simp add: MemoryCollector_parse_line_def k w keep_or_def split: prod.splits)
  next
    case 4
    then show ?thesis
      by (intro exI [of _ None] exI [of _ None] exI [of _ None] exI [of _ "Some val"] exI [of _ None])
        (simp add: MemoryCollector_parse_line_def k w keep_or_def split: prod.splits)
  next
    case 5
    then show ?thesis
      by (intro exI [of _ None] exI [of _ None] exI [of _ None] exI [of _ None] exI [of _ "Some val"])
        (simp add: MemoryCollector_parse_line_def k w keep_or_def split: prod.splits)
  next
    case 6
    then show ?thesis
      by (intro exI [of _ None])
        (simp add: MemoryCollector_parse_line_def k w keep_or_def split: prod.splits)
  qed
qed

lemma Memory_parse_lines_fields:
  "\<exists>g1 g2 g3 g4 g5. \<forall>m.
     MemoryCollector_parse_lines ind i ls m =
       m\<lparr>total_kb := keep_or g1 (total_kb m), free_kb := keep_or g2 (free_kb m),
         available_kb := keep_or g3 (available_kb m), buffers_kb := keep_or g4 (buffers_kb m),
         cached_kb := keep_or g5 (cached_kb m)\<rparr>"
proof (induction ls arbitrary: i)
  case Nil
  show ?case
    by (intro exI [of _ None]) (simp add: keep_or_def)
next
  case (Cons l ls)
  from Memory_parse_line_fields [of "ind i" l] obtain h1 h2 h3 h4 h5 where
    h: "\<And>m. MemoryCollector_parse_line (ind i) l m =
       m\<lparr>total_kb := keep_or h1 (total_kb m), free_kb := keep_or h2 (free_kb m),
         available_kb := keep_or h3 (available_kb m), buffers_kb := keep_or h4 (buffers_kb m),
         cached_kb := keep_or h5 (cached_kb m)\<rparr>"
    by blast
  from Cons.IH [of "Suc i"] obtain g1 g2 g3 g4 g5 where
    g: "\<And>m. MemoryCollector_parse_lines ind (Suc i) ls m =
       m\<lparr>total_kb := keep_or g1 (total_kb m), free_kb := keep_or g2 (free_kb m),
         available_kb := keep_or g3 (available_kb m), buffers_kb := keep_or g4 (buffers_kb m),
         cached_kb := keep_or g5 (cached_kb m)\<rparr>"
    by blast
  obtain k1 where k1: "\<And>x. keep_or g1 (keep_or h1 x) = keep_or k1 x"
    using keep_or_comp [of g1 h1] by blast
  obtain k2 where k2: "\<And>x. keep_or g2 (keep_or h2 x) = keep_or k2 x"
    using keep_or_comp [of g2 h2] by blast
  obtain k3 where k3: "\<And>x. keep_or g3 (keep_or h3 x) = keep_or k3 x"
    using keep_or_comp [of g3 h3] by blast
  obtain k4 where k4: "\<And>x. keep_or g4 (keep_or h4 x) = keep_or k4 x"
    using keep_or_comp [of g4 h4] by blast
  obtain k5 where k5: "\<And>x. keep_or g5 (keep_or h5 x) = keep_or k5 x"
    using keep_or_comp [of g5 h5] by blast
  show ?case
    by (intro exI [of _ k1] exI [of _ k2] exI [of _ k3] exI [of _ k4] exI [of _ k5])
      (simp add: g h k1 k2 k3 k4 k5)
qed

lemma Memory_unreachable_keeps_record:
  assumes "m1 = fst (MemoryCollector_update ind file m)"
  shows "MemoryCollector_update ind None m1 = (m1, [LOG_ERROR_cannot_open ''/proc/meminfo''])"
proof -
  obtain m0 where m0: "m0 = fst (MemoryCollector_do_collect file m)" by simp
  from Memory_parse_lines_fields [of ind 0 "getlines (mem_raw_data m0)"]
  obtain g1 g2 g3 g4 g5 where
    g: "\<And>x. MemoryCollector_parse_lines ind 0 (getlines (mem_raw_data m0)) x =
       x\<lparr>total_kb := keep_or g1 (total_kb x), free_kb := keep_or g2 (free_kb x),
         available_kb := keep_or g3 (available_kb x), buffers_kb := keep_or g4 (buffers_kb x),
         cached_kb := keep_or g5 (cached_kb x)\<rparr>"
    by blast
  have m1: "m1 = MemoryCollector_do_calculate (MemoryCollector_do_parse ind m0)"
    using assms m0 by (simp add: MemoryCollector_update_def split: prod.splits)
  have r: "mem_raw_data m1 = mem_raw_data m0"
    by (simp add: m1 MemoryCollector_do_calculate_def MemoryCollector_do_parse_def g Let_def)
  show ?thesis
    by (simp add: MemoryCollector_update_def MemoryCollector_do_collect_def
        MemoryCollector_do_parse_def r g)
      (simp add: m1 MemoryCollector_do_calculate_def MemoryCollector_do_parse_def g Let_def
        keep_or_idem)
qed

lemma get_double_keep_or:
  "\<exists>g s'. \<forall>old. get_double s old = (keep_or g old, s')"
proof -
  obtain ok s1 where st: "sentry s = (ok, s1)"
    by (cases "sentry s")
  obtain x r where x: "scan_float (buf s1) = (x, r)"
    by (cases "scan_float (buf s1)")
  show ?thesis
  proof (cases ok)
    case False
    then show ?thesis
      by (intro exI [of _ None] exI [of _ s1]) (simp add: get_double_def keep_or_def st)
  next
    case True
    obtain v bad where v: "convert_to_double x = (v, bad)"
      by (cases "convert_to_double x")
    show ?thesis
    proof (cases bad)
      case ok: False
      with True show ?thesis
        by (intro exI [of _ "Some v"] exI [of _ "s1\<lparr>buf := r, eofbit := (r = [])\<rparr>"])
          (simp add: get_double_def keep_or_def st x v)
    next
      case bad: True
      with True show ?thesis
        by (intro exI [of _ "Some v"]
            exI [of _ "s1\<lparr>buf := r, eofbit := (r = []), failbit := True\<rparr>"])
          (simp add: get_double_def keep_or_def st x v)
    qed
  qed
qed

lemma System_do_parse_shape:
  "\<exists>g1 g5 g15 res. \<forall>c. sys_raw_data c = raw \<longrightarrow>
     SystemCollector_do_parse c =
       (case res of
          Inl e \<Rightarrow> Inl e
        | Inr None \<Rightarrow>
            Inr (c\<lparr>load_1min := keep_or g1 (load_1min c), load_5min := keep_or g5 (load_5min c),
                  load_15min := keep_or g15 (load_15min c)\<rparr>)
        | Inr (Some (r, t)) \<Rightarrow>
            Inr (c\<lparr>load_1min := keep_or g1 (load_1min c), load_5min := keep_or g5 (load_5min c),
                  load_15min := keep_or g15 (load_15min c), running_tasks := r,
                  total_tasks := t\<rparr>))"
proof -
  obtain g1 s1 where a: "\<And>old. get_double (stringstream raw) old = (keep_or g1 old, s1)"
    using get_double_keep_or [of "stringstream raw"] by blast
  obtain g5 s2 where b: "\<And>old. get_double s1 old = (keep_or g5 old, s2)"
    using get_double_keep_or [of s1] by blast
  obtain g15 s3 where c: "\<And>old. get_double s2 old = (keep_or g15 old, s3)"
    using get_double_keep_or [of s2] by blast
  obtain running_str s4 where d: "get_string s3 [] = (running_str, s4)"
    by (cases "get_string s3 []")
  define res :: "error + (int \<times> int) option" where
    "res = (case find_chr running_str CHR ''/'' of
              None \<Rightarrow> Inr None
            | Some slash_pos \<Rightarrow>
                (case stoi (take slash_pos running_str) of
                   Inl e \<Rightarrow> Inl e
                 | Inr r \<Rightarrow>
                     (case stoi (drop (slash_pos + 1) running_str) of
                        Inl e \<Rightarrow> Inl e
                      | Inr t \<Rightarrow> Inr (Some (r, t)))))"
  show ?thesis
    by (intro exI [of _ g1] exI [of _ g5] exI [of _ g15] exI [of _ res])
      (auto simp: SystemCollector_do_parse_def a b c d res_def Let_def
        split: option.splits sum.splits)
qed

lemma System_unreachable_keeps_record:
  assumes "SystemCollector_update uptime_file loadavg_file c = Inr (c1, msgs)"
  shows "SystemCollector_update None None c1 = Inr (c1, [])"
proof -
  obtain c0 where c0: "c0 = fst (SystemCollector_do_collect uptime_file loadavg_file c)"
    by simp
  have p: "SystemCollector_do_parse c0 = Inr c1"
    using assms c0 by (auto simp: SystemCollector_update_def split: prod.splits sum.splits)
  from System_do_parse_shape [of "sys_raw_data c0"] obtain g1 g5 g15 res where
    s: "\<And>c. sys_raw_data c = sys_raw_data c0 \<Longrightarrow>
     SystemCollector_do_parse c =
       (case res of
          Inl e \<Rightarrow> Inl e
        | Inr None \<Rightarrow>
            Inr (c\<lparr>load_1min := keep_or g1 (load_1min c), load_5min := keep_or g5 (load_5min c),
                  load_15min := keep_or g15 (load_15min c)\<rparr>)
        | Inr (Some (r, t)) \<Rightarrow>
            Inr (c\<lparr>load_1min := keep_or g1 (load_1min c), load_5min := keep_or g5 (load_5min c),
                  load_15min := keep_or g15 (load_15min c), running_tasks := r,
                  total_tasks := t\<rparr>))"
    by blast
  from p s [of c0] have r: "sys_raw_data c1 = sys_raw_data c0"
    by (auto split: sum.splits option.splits)
  from p s [of c0] s [of c1, OF r] have "SystemCollector_do_parse c1 = Inr c1"
    by (auto simp: keep_or_idem split: sum.splits option.splits)
  then show ?thesis
    by (simp add: SystemCollector_update_def SystemCollector_do_collect_def)
qed

lemmas System_eval = SystemCollector_update_def SystemCollector_do_collect_def
  SystemCollector_do_parse_def SystemCollector_new_def scan_float_def float_ok_def
  convert_to_double_def strtod_overflow_def mantissa_digits_def fraction_digits_def
  decimal_exponent_def find_chr_def stoi_def stream_eval

lemma System_healthy:
  "SystemCollector_update (Some ''12345.67 4321.00\<newline>'') (Some ''0.50 0.40 0.30 2/150 12345\<newline>'')
     SystemCollector_new =
   Inr (\<lparr>sys_raw_data = ''0.50 0.40 0.30 2/150 12345\<newline>'', uptime_seconds = Strtod ''12345.67'',
         load_1min = Strtod ''0.50'', load_5min = Strtod ''0.40'', load_15min = Strtod ''0.30'',
         running_tasks = 2, total_tasks = 150\<rparr>, [])"
  by (simp add: System_eval)

lemma System_malformed:
  "SystemCollector_update (Some ''12345.67 4321.00\<newline>'') (Some ''0.50 0.40 0.30 x/150 12345\<newline>'')
     SystemCollector_new = Inl Invalid_argument"
  by (simp add: System_eval)

lemma get_double_beyond_range:
  "get_double (stringstream ''1e999 0.40'') old =
     (DBL_MAX, \<lparr>buf = '' 0.40'', eofbit = False, failbit = True\<rparr>)"
  "get_double (stringstream ''179769313486231580793728971405303415079934132710037826936173778980444968292764750946649017977587207096330286416692887910946555547851940402630657488671505820681908902000708383676273854845817711531764475730270069855571366959622842914819860834936475292719074168444365510704342711559699508093042880177904174497792 x'') old =
     (DBL_MAX, \<lparr>buf = '' x'', eofbit = False, failbit = True\<rparr>)"
  "get_double (stringstream ''179769313486231580793728971405303415079934132710037826936173778980444968292764750946649017977587207096330286416692887910946555547851940402630657488671505820681908902000708383676273854845817711531764475730270069855571366959622842914819860834936475292719074168444365510704342711559699508093042880177904174497791 x'') old =
     (Strtod ''179769313486231580793728971405303415079934132710037826936173778980444968292764750946649017977587207096330286416692887910946555547851940402630657488671505820681908902000708383676273854845817711531764475730270069855571366959622842914819860834936475292719074168444365510704342711559699508093042880177904174497791'',
      \<lparr>buf = '' x'', eofbit = False, failbit = False\<rparr>)"
  "get_double (stringstream ''-1.8e308'') old =
     (minus_DBL_MAX, \<lparr>buf = [], eofbit = True, failbit = True\<rparr>)"
  by (simp_all add: System_eval)

lemma System_never_logs:
  "SystemCollector_update uptime_file loadavg_file c = Inr (c', msgs) \<Longrightarrow> msgs = []"
  by (auto simp: SystemCollector_update_def SystemCollector_do_collect_def Let_def
      split: option.splits sum.splits)

lemma new_collectors_unreachable:
  "CPUCollector_update u None CPUCollector_new
     = (CPUCollector_new, [LOG_ERROR_cannot_open ''/proc/stat''])"
  "MemoryCollector_update indm None MemoryCollector_new
     = (MemoryCollector_new, [LOG_ERROR_cannot_open ''/proc/meminfo''])"
  "DiskCollector_update indd None DiskCollector_new
     = (DiskCollector_new, [LOG_ERROR_cannot_open ''/proc/diskstats''])"
  "NetworkCollector_update None NetworkCollector_new
     = (NetworkCollector_new, [LOG_ERROR_cannot_open ''/proc/net/dev''])"
  "ProcessCollector_update None stat_file indp ProcessCollector_new
     = Inr (ProcessCollector_new, [LOG_ERROR_cannot_open ''/proc''])"
  by (simp_all add: CPUCollector_update_def CPUCollector_do_collect_def CPUCollector_do_parse_def
      CPUCollector_do_calculate_def CPUCollector_new_def
      MemoryCollector_update_def MemoryCollector_do_collect_def MemoryCollector_do_parse_def
      MemoryCollector_do_calculate_def MemoryCollector_new_def getlines_def
      DiskCollector_update_def DiskCollector_do_collect_def DiskCollector_do_parse_def
      DiskCollector_new_def NetworkCollector_update_def NetworkCollector_do_collect_def
      NetworkCollector_do_parse_def NetworkCollector_new_def
      ProcessCollector_update_def ProcessCollector_do_parse_def ProcessCollector_do_collect_def
      ProcessCollector_new_def)

text \<open>
  The record of a collector survives a refresh whose source cannot be opened: a new
  collector keeps its initial values, and after any
  refresh that returned, a refresh with the source unreachable leaves the record as it
  was (for the CPU collector the usage percentage and the current generation; the other
  collectors whole, the process collector but for its unused raw text), returns, and,
  in the five collectors other than the system collector, logs one error.
\<close>

theorem unreachable_source_keeps_record:
  "snd (CPUCollector_update u None (fst (CPUCollector_update u file1 c)))
     = [LOG_ERROR_cannot_open ''/proc/stat'']
   \<and> cpu_usage_percent (fst (CPUCollector_update u None (fst (CPUCollector_update u file1 c))))
     = cpu_usage_percent (fst (CPUCollector_update u file1 c))
   \<and> curr_total (fst (CPUCollector_update u None (fst (CPUCollector_update u file1 c))))
     = curr_total (fst (CPUCollector_update u file1 c))
   \<and> curr_idle (fst (CPUCollector_update u None (fst (CPUCollector_update u file1 c))))
     = curr_idle (fst (CPUCollector_update u file1 c))
   \<and> MemoryCollector_update indm None (fst (MemoryCollector_update indm file2 m))
     = (fst (MemoryCollector_update indm file2 m), [LOG_ERROR_cannot_open ''/proc/meminfo''])
   \<and> DiskCollector_update indd None (fst (DiskCollector_update indd file3 d))
     = (fst (DiskCollector_update indd file3 d), [LOG_ERROR_cannot_open ''/proc/diskstats''])
   \<and> NetworkCollector_update None (fst (NetworkCollector_update file4 n))
     = (fst (NetworkCollector_update file4 n), [LOG_ERROR_cannot_open ''/proc/net/dev''])
   \<and> ProcessCollector_update None stat_file indp p
     = Inr (p\<lparr>proc_raw_data := []\<rparr>, [LOG_ERROR_cannot_open ''/proc''])
   \<and> (SystemCollector_update uptime_file loadavg_file s = Inr (s1, msgs)
      \<longrightarrow> SystemCollector_update None None s1 = Inr (s1, []))
   \<and> CPUCollector_update u None CPUCollector_new
     = (CPUCollector_new, [LOG_ERROR_cannot_open ''/proc/stat''])
   \<and> MemoryCollector_update indm None MemoryCollector_new
     = (MemoryCollector_new, [LOG_ERROR_cannot_open ''/proc/meminfo''])
   \<and> DiskCollector_update indd None DiskCollector_new
     = (DiskCollector_new, [LOG_ERROR_cannot_open ''/proc/diskstats''])
   \<and> NetworkCollector_update None NetworkCollector_new
     = (NetworkCollector_new, [LOG_ERROR_cannot_open ''/proc/net/dev''])
   \<and> ProcessCollector_update None stat_file indp ProcessCollector_new
     = Inr (ProcessCollector_new, [LOG_ERROR_cannot_open ''/proc''])"
  using new_collectors_unreachable
    CPU_unreachable_keeps_record [OF refl, of u file1 c]
    Memory_unreachable_keeps_record [OF refl, of indm file2 m]
    Disk_unreachable_keeps_record [OF refl, of indd file3 d]
    Network_unreachable_keeps_record [OF refl, of file4 n]
    Process_unreachable_keeps_record [of stat_file indp p]
    System_unreachable_keeps_record [of uptime_file loadavg_file s s1 msgs]
  by blast

theorem unreachable_source_keeps_record_witness:
  "SystemCollector_update None None
     \<lparr>sys_raw_data = ''0.50 0.40 0.30 2/150 12345\<newline>'', uptime_seconds = Strtod ''12345.67'',
      load_1min = Strtod ''0.50'', load_5min = Strtod ''0.40'', load_15min = Strtod ''0.30'',
      running_tasks = 2, total_tasks = 150\<rparr>
   = Inr (\<lparr>sys_raw_data = ''0.50 0.40 0.30 2/150 12345\<newline>'', uptime_seconds = Strtod ''12345.67'',
      load_1min = Strtod ''0.50'', load_5min = Strtod ''0.40'', load_15min = Strtod ''0.30'',
      running_tasks = 2, total_tasks = 150\<rparr>, [])"
  using unreachable_source_keeps_record
    [where uptime_file = "Some ''12345.67 4321.00\<newline>''"
       and loadavg_file = "Some ''0.50 0.40 0.30 2/150 12345\<newline>''"
       and s = SystemCollector_new and msgs = "[]"
       and ?s1.0 = "\<lparr>sys_raw_data = ''0.50 0.40 0.30 2/150 12345\<newline>'',
          uptime_seconds = Strtod ''12345.67'', load_1min = Strtod ''0.50'',
          load_5min = Strtod ''0.40'', load_15min = Strtod ''0.30'', running_tasks = 2,
          total_tasks = 150\<rparr>"]
    System_healthy
  by blast

text \<open>
  Claim C3 fails in the system collector: its \<^verbatim>\<open>do_collect\<close> passes over a file that
  cannot be opened without a call of \<^verbatim>\<open>LOG_ERROR\<close>, where the five other collectors
  log. With no file that can be opened, a tick of new collectors logs five errors, none
  of them for \<^verbatim>\<open>/proc/uptime\<close> or \<^verbatim>\<open>/proc/loadavg\<close>.
\<close>

theorem System_unreachable_not_logged:
  "SystemCollector_update None None SystemCollector_new = Inr (SystemCollector_new, [])
   \<and> snd (CPUCollector_update zero_cpu_times None CPUCollector_new)
       = [LOG_ERROR_cannot_open ''/proc/stat'']
   \<and> logged (tick unreachable_procfs zero_uninitialised create_all)
       = [LOG_ERROR_cannot_open ''/proc/stat'', LOG_ERROR_cannot_open ''/proc/meminfo'',
          LOG_ERROR_cannot_open ''/proc/diskstats'', LOG_ERROR_cannot_open ''/proc/net/dev'',
          LOG_ERROR_cannot_open ''/proc'']
   \<and> printed (tick unreachable_procfs zero_uninitialised create_all)
       = [''system'', ''cpu'', ''memory'', ''disk'', ''network'', ''process'']"
  by (simp add: unreachable_procfs_def create_all_def zero_uninitialised_def System_eval
      CPUCollector_update_def CPUCollector_do_collect_def CPUCollector_do_parse_def CPUCollector_new_def
      MemoryCollector_update_def MemoryCollector_do_collect_def
      DiskCollector_update_def DiskCollector_do_collect_def
      NetworkCollector_update_def NetworkCollector_do_collect_def
      ProcessCollector_update_def ProcessCollector_do_parse_def)

section \<open>Exceptions in a refresh\<close>

lemma Process_pid_out_of_range:
  "ProcessCollector_scan_entry stat_file g \<lparr>d_type = DT_DIR, d_name = ''99999999999''\<rparr> p
     = Inl Out_of_range"
  by (simp add: ProcessCollector_scan_entry_def is_pid_def stoi_def scan_number_eval isspace_def
      isdigit_def nat_of_digits_def digit_val_def)

lemma Process_short_stat_line:
  "ProcessCollector_scan_entry (\<lambda>name. Some ''1 (a)\<newline>'') g \<lparr>d_type = DT_DIR, d_name = ''1''\<rparr> p
     = Inl Out_of_range"
  by (simp add: ProcessCollector_scan_entry_def is_pid_def stoi_def scan_number_eval isspace_def
      isdigit_def nat_of_digits_def digit_val_def getline_def first_line_def find_chr_def
      substr_from_def)

lemma update_keeps_name: "update fs u c = Inr (c', msgs) \<Longrightarrow> get_name c' = get_name c"
  by (cases c) (auto split: sum.splits prod.splits)

lemma tick_Cons_Inr:
  assumes "update fs u c = Inr (c', msgs)"
  shows "printed (tick fs u (c # cs)) = get_name c # printed (tick fs u cs)"
    and "uncaught (tick fs u (c # cs)) = uncaught (tick fs u cs)"
  using assms update_keeps_name [OF assms] by (simp_all add: Let_def)

lemma update_never_throws:
  "\<exists>c' msgs. update fs u (CPU c) = Inr (c', msgs)"
  "\<exists>c' msgs. update fs u (Memory m) = Inr (c', msgs)"
  "\<exists>c' msgs. update fs u (Disk d) = Inr (c', msgs)"
  "\<exists>c' msgs. update fs u (Network n) = Inr (c', msgs)"
  by (simp_all split: prod.splits)

lemma healthy_tick:
  "printed (tick healthy_procfs zero_uninitialised create_all)
     = [''system'', ''cpu'', ''memory'', ''disk'', ''network'', ''process'']
   \<and> uncaught (tick healthy_procfs zero_uninitialised create_all) = None"
proof -
  obtain s1 s2 where s: "update healthy_procfs zero_uninitialised (System SystemCollector_new) = Inr (s1, s2)"
    by (simp add: healthy_procfs_def System_healthy)
  obtain c1 c2 where c: "update healthy_procfs zero_uninitialised (CPU CPUCollector_new) = Inr (c1, c2)"
    using update_never_throws(1) by blast
  obtain m1 m2 where m: "update healthy_procfs zero_uninitialised (Memory MemoryCollector_new) = Inr (m1, m2)"
    using update_never_throws(2) by blast
  obtain d1 d2 where d: "update healthy_procfs zero_uninitialised (Disk DiskCollector_new) = Inr (d1, d2)"
    using update_never_throws(3) by blast
  obtain n1 n2 where n: "update healthy_procfs zero_uninitialised (Network NetworkCollector_new) = Inr (n1, n2)"
    using update_never_throws(4) by blast
  have "ProcessCollector_do_collect ProcessCollector_new = ProcessCollector_new"
    by (simp add: ProcessCollector_do_collect_def ProcessCollector_new_def)
  then obtain p1 p2 where p: "update healthy_procfs zero_uninitialised (Process ProcessCollector_new) = Inr (p1, p2)"
    by (simp add: healthy_procfs_def zero_uninitialised_def ProcessCollector_update_def
        example_proc_parsed)
  show ?thesis
    unfolding create_all_def
    using tick_Cons_Inr [OF s]
      tick_Cons_Inr [OF c]
      tick_Cons_Inr [OF m]
      tick_Cons_Inr [OF d]
      tick_Cons_Inr [OF n]
      tick_Cons_Inr [OF p]
    by simp
qed

text \<open>
  Claim C9 fails on malformed text: with the task token \<^verbatim>\<open>x/150\<close> in
  \<^verbatim>\<open>/proc/loadavg\<close>, \<^verbatim>\<open>std::stoi\<close> throws \<^verbatim>\<open>std::invalid_argument\<close> in the refresh
  of the system collector, which is the first of the set; nothing catches it, and no
  collector is refreshed or printed in that tick. With the token \<^verbatim>\<open>2/150\<close> the same
  tick refreshes and prints all six.
\<close>

theorem malformed_loadavg_ends_tick:
  "SystemCollector_update (proc_uptime malformed_loadavg_procfs)
       (proc_loadavg malformed_loadavg_procfs) SystemCollector_new = Inl Invalid_argument
   \<and> tick malformed_loadavg_procfs zero_uninitialised create_all
       = \<lparr>refreshed = [], printed = [], logged = [], uncaught = Some Invalid_argument\<rparr>
   \<and> printed (tick healthy_procfs zero_uninitialised create_all)
       = [''system'', ''cpu'', ''memory'', ''disk'', ''network'', ''process'']
   \<and> uncaught (tick healthy_procfs zero_uninitialised create_all) = None"
  using healthy_tick
  by (simp add: malformed_loadavg_procfs_def healthy_procfs_def create_all_def System_malformed)

end
